theory Spec2Isabelle
  imports Main "HOL-Library.Word"
begin

text \<open>
  The dispatch engine of \<^verbatim>\<open>xmpp.go\<close>: the matcher \<^verbatim>\<open>IQResult\<close>, the filter registry
  (\<^verbatim>\<open>AddFilter\<close>, \<^verbatim>\<open>RemoveFilter\<close>), the request/response helper \<^verbatim>\<open>SendRecv\<close> and the two
  tasks \<^verbatim>\<open>sender\<close> and \<^verbatim>\<open>receiver\<close>.

  The embedding is sequential. Each function is modelled on its own, as a function of
  the state it reads and of what its environment hands to it: the values received from
  a channel and the results of \<^verbatim>\<open>Next\<close> are inputs, and what a function does to the
  outside (channel sends, calls of the stream, log lines) is the trace it returns. The
  interleaving of goroutines and the time a blocking operation takes are not modelled;
  that a call never returns is the outcome \<open>Blocks\<close>, and a panic is the outcome
  \<open>Panics\<close>.
\<close>

section \<open>Values carried by the channels\<close>

text \<open>
  Modelled from the spec: the stanza structs \<^verbatim>\<open>IQ\<close>, \<^verbatim>\<open>Error\<close>, \<^verbatim>\<open>Message\<close> and
  \<^verbatim>\<open>Presence\<close> are declared outside \<^verbatim>\<open>xmpp.go\<close>. The spec gives a Query a correlation
  identifier and a kind (get/set/result/error); \<^verbatim>\<open>xmpp.go\<close> itself only reads the field
  \<^verbatim>\<open>ID\<close>. Both are strings here, as XML attributes are; the remaining content of a stanza
  is one string.
\<close>

record IQ =
  ID :: string
  Type :: string
  Payload :: string

text \<open>
  The channels and the matchers work on \<^verbatim>\<open>interface{}\<close>. A value of that type is
  \<^verbatim>\<open>nil\<close>, a pointer to one of the four stanza structs (the receiver creates
  \<^verbatim>\<open>&Error{}\<close>, \<^verbatim>\<open>&IQ{}\<close>, \<^verbatim>\<open>&Message{}\<close>, \<^verbatim>\<open>&Presence{}\<close>, never a nil pointer), a Go
  \<^verbatim>\<open>error\<close>, or a value of any other dynamic type.
\<close>

datatype val =
    Nil_val
  | PtrError string
  | PtrIQ IQ
  | PtrMessage string
  | PtrPresence string
  | GoError string
  | OtherVal string

text \<open>
  \<^verbatim>\<open>type Matcher interface { Match(v interface{}) (match bool) }\<close> and the adapter
  \<^verbatim>\<open>MatcherFunc\<close>, whose \<^verbatim>\<open>Match\<close> calls the adapted func.
\<close>

type_synonym Matcher = "val \<Rightarrow> bool"

definition MatcherFunc :: "(val \<Rightarrow> bool) \<Rightarrow> Matcher" where
  "MatcherFunc fn = fn"

definition Match :: "Matcher \<Rightarrow> val \<Rightarrow> bool" where
  "Match fn v = fn v"

text \<open>
  \<^verbatim>\<open>IQResult\<close>: the type assertion \<^verbatim>\<open>v.(*IQ)\<close> fails on everything but a \<^verbatim>\<open>*IQ\<close>; then
  the only test is \<^verbatim>\<open>iq.ID != id\<close>.
\<close>

definition IQResult :: "string \<Rightarrow> Matcher" where
  "IQResult id0 =
     MatcherFunc (\<lambda>v.
       case v of
         PtrIQ iq \<Rightarrow> (if ID iq \<noteq> id0 then False else True)
       | _ \<Rightarrow> False)"

text \<open>What the spec calls a Query whose kind is result.\<close>

definition is_result :: "IQ \<Rightarrow> bool" where
  "is_result iq = (Type iq = ''result'')"

section \<open>The filter registry\<close>

text \<open>
  \<^verbatim>\<open>type FilterID int64\<close>: a 64-bit two's complement integer; \<^verbatim>\<open>x.nextFilterID++\<close>
  wraps around. The order of identifiers is the signed one.
\<close>

type_synonym FilterID = "64 word"

text \<open>
  Channels are heap objects created by \<^verbatim>\<open>make(chan interface{})\<close>. The heap of channels is
  a list of cells. A channel value is the nil channel or a reference to a cell, by its
  index; \<^verbatim>\<open>make\<close> appends an open cell and returns the reference to it, which is never
  nil and refers to no cell of the heap before. (A state of the program holds only nil
  and references to cells of its heap; a reference beyond the heap is treated like nil.)
\<close>

datatype chan_state = Open | Closed

datatype chan = NilChan | Chan nat

definition make_chan :: "chan_state list \<Rightarrow> chan \<times> chan_state list" where
  "make_chan h = (Chan (length h), h @ [Open])"

definition chan_open :: "chan_state list \<Rightarrow> chan \<Rightarrow> bool" where
  "chan_open h c = (case c of NilChan \<Rightarrow> False | Chan a \<Rightarrow> a < length h \<and> h ! a = Open)"

definition chan_closed :: "chan_state list \<Rightarrow> chan \<Rightarrow> bool" where
  "chan_closed h c = (case c of NilChan \<Rightarrow> False | Chan a \<Rightarrow> a < length h \<and> h ! a = Closed)"

text \<open>The heap with the cell of a channel closed.\<close>

definition set_closed :: "chan_state list \<Rightarrow> chan \<Rightarrow> chan_state list" where
  "set_closed h c = (case c of NilChan \<Rightarrow> h | Chan a \<Rightarrow> h[a := Closed])"

text \<open>
  \<^verbatim>\<open>close(c)\<close> closes an open channel; on a closed channel and on the nil channel it
  panics, with the message of the Go runtime (\<open>Inl\<close>).
\<close>

definition close_chan :: "chan_state list \<Rightarrow> chan \<Rightarrow> string + chan_state list" where
  "close_chan h c =
     (if chan_open h c then Inr (set_closed h c)
      else if chan_closed h c then Inl ''close of closed channel''
      else Inl ''close of nil channel'')"

text \<open>\<^verbatim>\<open>type filter struct { id FilterID; m Matcher; ch chan interface{} }\<close>\<close>

record filter_t =
  fid :: FilterID
  fm :: Matcher
  fch :: chan

text \<open>
  The part of \<^verbatim>\<open>type XMPP struct\<close> that the dispatch engine reads and writes: the two
  channels \<^verbatim>\<open>In\<close> and \<open>Out\<close>, the counter and the filter slice; with it, the heap of
  channels. The mutex \<^verbatim>\<open>filterLock\<close> makes \<^verbatim>\<open>AddFilter\<close> and \<^verbatim>\<open>RemoveFilter\<close> atomic: each
  is one function of the state. The fields \<^verbatim>\<open>JID\<close> and \<^verbatim>\<open>stream\<close> are not touched by the
  registry; the transport behind \<^verbatim>\<open>stream\<close> is modelled in the section on the tasks.
\<close>

record XMPP =
  In_ch :: chan
  Out_ch :: chan
  nextFilterID :: FilterID
  filters :: "filter_t list"
  heap :: "chan_state list"

text \<open>
  \<^verbatim>\<open>newXMPP\<close> makes the two channels; the counter and the slice have their zero values.
  (The two tasks it starts are modelled below.)
\<close>

definition newXMPP :: XMPP where
  "newXMPP =
     \<lparr>In_ch = Chan 0, Out_ch = Chan 1, nextFilterID = 0, filters = [], heap = [Open, Open]\<rparr>"

text \<open>How a call ends: it returns, it panics, or it blocks forever on a channel.\<close>

datatype 'a outcome = Returns 'a | Panics string | Blocks

text \<open>Go's \<^verbatim>\<open>error\<close> values of this file: a \<^verbatim>\<open>FilterID\<close> used as an error, and
  \<^verbatim>\<open>fmt.Errorf("Expected IQ, for %T", stanza)\<close>.\<close>

datatype error = InvalidFilterID FilterID | ExpectedIQ val

text \<open>
  \<^verbatim>\<open>AddFilter\<close>: make the channel, take the counter's value and increment the counter,
  build the new slice with the new filter at index 0 and the old ones after it.
\<close>

definition AddFilter :: "Matcher \<Rightarrow> XMPP \<Rightarrow> FilterID \<times> chan \<times> XMPP" where
  "AddFilter m x =
     (let (ch, h) = make_chan (heap x);
          id0 = nextFilterID x;
          x1 = x\<lparr>heap := h, nextFilterID := nextFilterID x + 1\<rparr>;
          fs = \<lparr>fid = id0, fm = m, fch = ch\<rparr> # filters x1
      in (id0, ch, x1\<lparr>filters := fs\<rparr>))"

text \<open>
  \<^verbatim>\<open>RemoveFilter\<close>: the loop \<^verbatim>\<open>for i, f := range x.filters\<close> as a recursion on the rest of the
  slice, with the index \<open>i\<close>. At the first filter with the identifier it closes the
  channel (a panic leaves the state as it is), builds the slice without index \<open>i\<close> and
  returns \<^verbatim>\<open>nil\<close>; at the end of the slice it returns the identifier as the error.
\<close>

fun RemoveFilter_loop :: "FilterID \<Rightarrow> XMPP \<Rightarrow> nat \<Rightarrow> filter_t list \<Rightarrow> error option outcome \<times> XMPP" where
  "RemoveFilter_loop id0 x i [] = (Returns (Some (InvalidFilterID id0)), x)"
| "RemoveFilter_loop id0 x i (f # rest) =
     (if fid f \<noteq> id0 then RemoveFilter_loop id0 x (Suc i) rest
      else
        (case close_chan (heap x) (fch f) of
           Inl p \<Rightarrow> (Panics p, x)
         | Inr h \<Rightarrow>
             (Returns None,
              x\<lparr>heap := h, filters := take i (filters x) @ drop (Suc i) (filters x)\<rparr>)))"

definition RemoveFilter :: "FilterID \<Rightarrow> XMPP \<Rightarrow> error option outcome \<times> XMPP" where
  "RemoveFilter id0 x = RemoveFilter_loop id0 x 0 (filters x)"

text \<open>
  A sequence of calls on the registry of one conversation: the state after each call, and
  the identifiers that the \<^verbatim>\<open>AddFilter\<close> calls return, in the order of the calls.
\<close>

datatype call = Add Matcher | Remove FilterID

fun step :: "call \<Rightarrow> XMPP \<Rightarrow> XMPP" where
  "step (Add m) x = snd (snd (AddFilter m x))"
| "step (Remove i) x = snd (RemoveFilter i x)"

fun run :: "call list \<Rightarrow> XMPP \<Rightarrow> XMPP" where
  "run [] x = x"
| "run (c # cs) x = run cs (step c x)"

fun issued :: "call list \<Rightarrow> XMPP \<Rightarrow> FilterID list" where
  "issued [] x = []"
| "issued (Add m # cs) x = fst (AddFilter m x) # issued cs (step (Add m) x)"
| "issued (Remove i # cs) x = issued cs (step (Remove i) x)"

fun adds :: "call list \<Rightarrow> nat" where
  "adds [] = 0"
| "adds (Add m # cs) = Suc (adds cs)"
| "adds (Remove i # cs) = adds cs"

text \<open>
  A caller that adds a filter and removes it again, \<open>n\<close> times over, in a conversation
  where \<open>k\<close> filters have been added before: the \<^verbatim>\<open>AddFilter\<close> of round \<open>j\<close> returns
  \<open>k + j\<close>, which the next call removes.
\<close>

primrec churn :: "Matcher \<Rightarrow> nat \<Rightarrow> nat \<Rightarrow> call list" where
  "churn m k 0 = []"
| "churn m k (Suc n) = churn m k n @ [Add m, Remove (word_of_nat (k + n))]"

section \<open>The transport and the two tasks\<close>

text \<open>\<^verbatim>\<open>xml.Name\<close>, \<^verbatim>\<open>xml.StartElement\<close> and \<^verbatim>\<open>xml.EndElement\<close> of \<^verbatim>\<open>encoding/xml\<close>.\<close>

record Name =
  Space :: string
  Local :: string

record StartElement =
  Name :: Name
  Attr :: "(Name \<times> string) list"

record EndElement =
  EndName :: Name

text \<open>
  Modelled from the spec: the type \<^verbatim>\<open>Stream\<close> is declared outside \<^verbatim>\<open>xmpp.go\<close>. Its
  \<^verbatim>\<open>Decode(v, start)\<close> materializes the element into the struct that \<open>v\<close> points to and
  returns an error or nil; it cannot change the dynamic type of \<open>v\<close>. A stream is
  given by what decoding writes into each kind of struct and by the error it returns;
  \<^verbatim>\<open>Send\<close> and \<^verbatim>\<open>SendEnd\<close> are observed as events, and what \<^verbatim>\<open>Next\<close> returns, call after
  call, is the input of the receiver.
\<close>

record Stream =
  decodeIQ :: "StartElement \<Rightarrow> IQ"
  decodeBody :: "StartElement \<Rightarrow> string"
  decodeErr :: "val \<Rightarrow> StartElement \<Rightarrow> string option"

definition Decode :: "Stream \<Rightarrow> val \<Rightarrow> StartElement \<Rightarrow> val \<times> string option" where
  "Decode s v start =
     ((case v of
         PtrError _ \<Rightarrow> PtrError (decodeBody s start)
       | PtrIQ _ \<Rightarrow> PtrIQ (decodeIQ s start)
       | PtrMessage _ \<Rightarrow> PtrMessage (decodeBody s start)
       | PtrPresence _ \<Rightarrow> PtrPresence (decodeBody s start)
       | _ \<Rightarrow> v),
      decodeErr s v start)"

text \<open>
  What the tasks do to the outside, in order: log lines (by their constant text), calls
  of the stream, and channel operations.
\<close>

datatype event =
    Log string
  | StreamSend val
  | StreamSendEnd EndElement
  | StreamDecode val StartElement
  | ChanSend chan val
  | ChanRecv chan val
  | ChanClose chan

text \<open>\<^verbatim>\<open>Close\<close>: a log line and \<^verbatim>\<open>SendEnd\<close> of the element \<^verbatim>\<open>stream:stream\<close>.\<close>

definition Close :: "event list" where
  "Close = [Log ''Close XMPP'',
            StreamSendEnd \<lparr>EndName = \<lparr>Space = ''stream'', Local = ''stream''\<rparr>\<rparr>]"

text \<open>
  \<^verbatim>\<open>sender\<close>: \<^verbatim>\<open>for v := range x.Out\<close> receives until the channel is closed. Its input is
  the values that the application sends on \<^verbatim>\<open>Out\<close> and whether it closes the channel after
  them; if it does not, the loop blocks in the receive after the last value.
\<close>

fun sender_loop :: "val list \<Rightarrow> bool \<Rightarrow> event list \<times> unit outcome" where
  "sender_loop [] closed = ([], if closed then Returns () else Blocks)"
| "sender_loop (v # vs) closed =
     (let (es, r) = sender_loop vs closed in (StreamSend v # es, r))"

definition sender :: "val list \<Rightarrow> bool \<Rightarrow> event list \<times> unit outcome" where
  "sender vs closed =
     (case sender_loop vs closed of
        (es, Returns u) \<Rightarrow> (es @ [Log ''Close XMPP stream''] @ Close, Returns u)
      | (es, r) \<Rightarrow> (es, r))"

text \<open>
  A send on a channel: a panic when the channel is closed; on a nil channel it blocks
  forever; on an open channel it is the event (the consumers of the channels are taken
  to receive what is sent to them).
\<close>

definition chan_send :: "chan_state list \<Rightarrow> chan \<Rightarrow> val \<Rightarrow> event list \<times> unit outcome" where
  "chan_send h c v =
     (if chan_closed h c then ([], Panics ''send on closed channel'')
      else if chan_open h c then ([ChanSend c v], Returns ())
      else ([], Blocks))"

text \<open>
  The \<^verbatim>\<open>switch start.Name.Local\<close> of the receiver: the value that \<open>v\<close> holds after it, and
  the log line of the default case.
\<close>

definition select_variant :: "StartElement \<Rightarrow> val \<times> event list" where
  "select_variant start =
     (if Local (Name start) = ''error'' then (PtrError [], [])
      else if Local (Name start) = ''iq'' then (PtrIQ \<lparr>ID = [], Type = [], Payload = []\<rparr>, [])
      else if Local (Name start) = ''message'' then (PtrMessage [], [])
      else if Local (Name start) = ''presence'' then (PtrPresence [], [])
      else (Nil_val, [Log ''Error. Unexected element: %T %v'']))"

text \<open>
  The loop \<^verbatim>\<open>for _, filter := range x.filters\<close> with its flag \<^verbatim>\<open>filtered\<close>: the slice is
  walked from index 0; a matching filter is sent the value and sets the flag.
\<close>

fun filter_loop :: "chan_state list \<Rightarrow> val \<Rightarrow> filter_t list \<Rightarrow> bool \<Rightarrow> event list \<times> bool outcome" where
  "filter_loop h v [] filtered = ([], Returns filtered)"
| "filter_loop h v (f # fs) filtered =
     (if Match (fm f) v then
        (case chan_send h (fch f) v of
           (es, Returns _) \<Rightarrow>
             (let (es', r) = filter_loop h v fs True in (es @ es', r))
         | (es, Panics p) \<Rightarrow> (es, Panics p)
         | (es, Blocks) \<Rightarrow> (es, Blocks))
      else filter_loop h v fs filtered)"

text \<open>
  One iteration of the receiver's loop on an element that \<^verbatim>\<open>Next\<close> returned: the switch,
  \<^verbatim>\<open>Decode\<close> (its error is only logged), the filters, and the send on \<^verbatim>\<open>In\<close> when no filter
  took the value.
\<close>

definition receive_one :: "Stream \<Rightarrow> XMPP \<Rightarrow> StartElement \<Rightarrow> event list \<times> unit outcome" where
  "receive_one s x start =
     (let (v0, logs) = select_variant start;
          (v, err) = Decode s v0 start;
          es1 = logs @ [StreamDecode v0 start] @
                (case err of None \<Rightarrow> [] | Some e \<Rightarrow> [Log ''Error. Failed to decode element. ''])
      in case filter_loop (heap x) v (filters x) False of
           (es2, Returns filtered) \<Rightarrow>
             (if \<not> filtered then
                (let (es3, r) = chan_send (heap x) (In_ch x) v in (es1 @ es2 @ es3, r))
              else (es1 @ es2, Returns ()))
         | (es2, Panics p) \<Rightarrow> (es1 @ es2, Panics p)
         | (es2, Blocks) \<Rightarrow> (es1 @ es2, Blocks))"

text \<open>
  The receiver's \<^verbatim>\<open>for\<close> loop. Its input is what the calls of \<^verbatim>\<open>Next\<close> return, one after
  the other: an error (\<open>Inl\<close>) or a start element; after the last of them \<^verbatim>\<open>Next\<close> blocks.
  On an error the loop sends it on \<^verbatim>\<open>In\<close> and returns. The loop does not change the
  state, and the registry is the same in every iteration (no \<^verbatim>\<open>AddFilter\<close> or
  \<^verbatim>\<open>RemoveFilter\<close> runs meanwhile).
\<close>

fun receiver_loop :: "Stream \<Rightarrow> XMPP \<Rightarrow> (string + StartElement) list \<Rightarrow> event list \<times> unit outcome" where
  "receiver_loop s x [] = ([], Blocks)"
| "receiver_loop s x (Inl err # rest) = chan_send (heap x) (In_ch x) (GoError err)"
| "receiver_loop s x (Inr start # rest) =
     (case receive_one s x start of
        (es, Returns _) \<Rightarrow> (let (es', r) = receiver_loop s x rest in (es @ es', r))
      | (es, r) \<Rightarrow> (es, r))"

text \<open>
  \<^verbatim>\<open>receiver\<close>: the loop, and the deferred function, which runs when the loop returns and
  when it panics: a log line, \<^verbatim>\<open>x.Close()\<close>, \<^verbatim>\<open>close(x.In)\<close>. A panic of \<^verbatim>\<open>close(x.In)\<close> is
  a panic of the deferred function itself.
\<close>

definition receiver :: "Stream \<Rightarrow> XMPP \<Rightarrow> (string + StartElement) list \<Rightarrow> event list \<times> unit outcome \<times> XMPP" where
  "receiver s x nexts =
     (case receiver_loop s x nexts of
        (es, Blocks) \<Rightarrow> (es, Blocks, x)
      | (es, r) \<Rightarrow>
          (case close_chan (heap x) (In_ch x) of
             Inl p \<Rightarrow> (es @ [Log ''Close XMPP receiver''] @ Close, Panics p, x)
           | Inr h \<Rightarrow>
               (es @ [Log ''Close XMPP receiver''] @ Close @ [ChanClose (In_ch x)], r, x\<lparr>heap := h\<rparr>)))"

text \<open>
  \<^verbatim>\<open>SendRecv\<close>. The second argument is what the receive \<^verbatim>\<open>stanza := <-ch\<close> yields: a value
  that the receiver task sent, or nothing, when the call blocks forever. The deferred
  \<^verbatim>\<open>RemoveFilter\<close> runs on every way out of the function: after the send on \<^verbatim>\<open>Out\<close> has
  panicked (the channel was closed), after the failed type assertion and after the
  successful one. A panic of the deferred call takes the place of the result.
\<close>

definition deferred_RemoveFilter ::
    "FilterID \<Rightarrow> 'a outcome \<times> event list \<times> XMPP \<Rightarrow> 'a outcome \<times> event list \<times> XMPP" where
  "deferred_RemoveFilter i r =
     (case r of (res, es, x) \<Rightarrow>
        (case RemoveFilter i x of
           (Panics p, x') \<Rightarrow> (Panics p, es, x')
         | (_, x') \<Rightarrow> (res, es, x')))"

definition SendRecv :: "IQ \<Rightarrow> val option \<Rightarrow> XMPP \<Rightarrow> (error + IQ) outcome \<times> event list \<times> XMPP" where
  "SendRecv iq delivered x =
     (let (i, ch, x1) = AddFilter (IQResult (ID iq)) x in
      case chan_send (heap x1) (Out_ch x1) (PtrIQ iq) of
        (es, Panics p) \<Rightarrow> deferred_RemoveFilter i (Panics p, es, x1)
      | (es, Blocks) \<Rightarrow> (Blocks, es, x1)
      | (es, Returns _) \<Rightarrow>
          (case delivered of
             None \<Rightarrow> (Blocks, es, x1)
           | Some stanza \<Rightarrow>
               (case stanza of
                  PtrIQ reply \<Rightarrow>
                    deferred_RemoveFilter i (Returns (Inr reply), es @ [ChanRecv ch stanza], x1)
                | _ \<Rightarrow>
                    deferred_RemoveFilter i
                      (Returns (Inl (ExpectedIQ stanza)), es @ [ChanRecv ch stanza], x1))))"

text \<open>The values sent on a channel, in order, read off a trace.\<close>

fun sent_on :: "chan \<Rightarrow> event list \<Rightarrow> val list" where
  "sent_on c [] = []"
| "sent_on c (ChanSend c' v # es) = (if c' = c then v # sent_on c es else sent_on c es)"
| "sent_on c (e # es) = sent_on c es"

text \<open>A stream for the examples: it reads the attributes \<^verbatim>\<open>id\<close> and \<^verbatim>\<open>type\<close> of the start
  element, and decoding into \<^verbatim>\<open>nil\<close> is an error.\<close>

fun attr :: "string \<Rightarrow> (Name \<times> string) list \<Rightarrow> string" where
  "attr k [] = []"
| "attr k ((n, v) # as) = (if Local n = k then v else attr k as)"

definition attr_stream :: Stream where
  "attr_stream =
     \<lparr>decodeIQ = (\<lambda>st. \<lparr>ID = attr ''id'' (Attr st), Type = attr ''type'' (Attr st), Payload = []\<rparr>),
      decodeBody = (\<lambda>st. []),
      decodeErr = (\<lambda>v st. case v of Nil_val \<Rightarrow> Some ''non-pointer passed to Unmarshal'' | _ \<Rightarrow> None)\<rparr>"

definition elem :: "string \<Rightarrow> (string \<times> string) list \<Rightarrow> StartElement" where
  "elem tag as = \<lparr>Name = \<lparr>Space = [], Local = tag\<rparr>,
                  Attr = map (\<lambda>(k, v). (\<lparr>Space = [], Local = k\<rparr>, v)) as\<rparr>"

section \<open>Predicates used in the statements\<close>

text \<open>A failure value on a channel: a Go \<^verbatim>\<open>error\<close>, as the receiver sends it when \<^verbatim>\<open>Next\<close>
  fails.\<close>

definition is_failure :: "val \<Rightarrow> bool" where
  "is_failure v = (case v of GoError _ \<Rightarrow> True | _ \<Rightarrow> False)"

text \<open>
  The identifiers read as natural numbers: the counter is the image of \<open>n\<close>, the number
  of \<^verbatim>\<open>AddFilter\<close> calls so far, and the registered identifiers are the images of numbers
  below \<open>n\<close>, the newest (largest) first.
\<close>

definition numbered :: "nat \<Rightarrow> XMPP \<Rightarrow> bool" where
  "numbered n x \<longleftrightarrow>
     nextFilterID x = word_of_nat n \<and>
     (\<exists>ks. map fid (filters x) = map word_of_nat ks \<and> sorted_wrt (>) ks \<and> (\<forall>k \<in> set ks. k < n))"

text \<open>
  The channels of a conversation as \<^verbatim>\<open>newXMPP\<close> and \<^verbatim>\<open>AddFilter\<close> make them: \<^verbatim>\<open>In\<close>, \<^verbatim>\<open>Out\<close>
  and the registered filters' channels are pairwise different and open.
\<close>

definition channels_ok :: "XMPP \<Rightarrow> bool" where
  "channels_ok x \<longleftrightarrow>
     distinct (In_ch x # Out_ch x # map fch (filters x)) \<and>
     (\<forall>c \<in> set (In_ch x # Out_ch x # map fch (filters x)). chan_open (heap x) c)"

text \<open>
  Two states for the examples: a conversation with two filters for the identifier
  \<^verbatim>\<open>"1"\<close>, and one where the channel of a registered filter is already closed (a filter
  removed by another goroutine after the receiver has read the slice).
\<close>

definition two_filters :: XMPP where
  "two_filters = run [Add (IQResult ''1''), Add (IQResult ''1'')] newXMPP"

definition stale_filter :: XMPP where
  "stale_filter =
     \<lparr>In_ch = Chan 0, Out_ch = Chan 1, nextFilterID = 1,
      filters = [\<lparr>fid = 0, fm = IQResult ''1'', fch = Chan 2\<rparr>],
      heap = [Open, Open, Closed]\<rparr>"

section \<open>Properties\<close>

subsection \<open>The matcher\<close>

lemma IQResult_iff: "Match (IQResult i) v \<longleftrightarrow> (\<exists>iq. v = PtrIQ iq \<and> ID iq = i)"
  by (cases v) (simp_all add: IQResult_def MatcherFunc_def Match_def)

text \<open>
  C1. The matcher of \<^verbatim>\<open>IQResult\<close> is to accept exactly the Query stanzas of kind result
  with the given identifier. The code never looks at the kind: a Query of kind get with
  the identifier is accepted.
\<close>

theorem IQResult_accepts_get:
  "Match (IQResult ''1'') (PtrIQ \<lparr>ID = ''1'', Type = ''get'', Payload = ''''\<rparr>) = True
   \<and> \<not> is_result \<lparr>ID = ''1'', Type = ''get'', Payload = ''''\<rparr>"
  by (simp add: IQResult_def MatcherFunc_def Match_def is_result_def)

subsection \<open>Adding and removing filters\<close>

lemma AddFilter_eq:
  "AddFilter m x =
     (nextFilterID x, Chan (length (heap x)),
      x\<lparr>heap := heap x @ [Open], nextFilterID := nextFilterID x + 1,
        filters := \<lparr>fid = nextFilterID x, fm = m, fch = Chan (length (heap x))\<rparr> # filters x\<rparr>)"
  by (simp add: AddFilter_def make_chan_def Let_def)

lemma RemoveFilter_loop_absent:
  "\<forall>f \<in> set fs. fid f \<noteq> i \<Longrightarrow>
   RemoveFilter_loop i x n fs = (Returns (Some (InvalidFilterID i)), x)"
  by (induction fs arbitrary: n) simp_all

lemma RemoveFilter_loop_present:
  "filters x = pre @ mid @ f # post \<Longrightarrow> length pre = n \<Longrightarrow>
   \<forall>g \<in> set mid. fid g \<noteq> i \<Longrightarrow> fid f = i \<Longrightarrow>
   RemoveFilter_loop i x n (mid @ f # post) =
     (case close_chan (heap x) (fch f) of
        Inl p \<Rightarrow> (Panics p, x)
      | Inr h \<Rightarrow> (Returns None, x\<lparr>heap := h, filters := pre @ mid @ post\<rparr>))"
proof (induction mid arbitrary: pre n)
  case Nil
  then show ?case by (simp split: sum.split)
next
  case (Cons g mid)
  from Cons.prems have "filters x = (pre @ [g]) @ mid @ f # post" "length (pre @ [g]) = Suc n"
    "\<forall>g \<in> set mid. fid g \<noteq> i" "fid g \<noteq> i"
    by simp_all
  with Cons.IH [of "pre @ [g]" "Suc n"] Cons.prems(4) show ?case by (simp split: sum.splits)
qed

lemma RemoveFilter_absent:
  "i \<notin> fid ` set (filters x) \<Longrightarrow> RemoveFilter i x = (Returns (Some (InvalidFilterID i)), x)"
  unfolding RemoveFilter_def by (rule RemoveFilter_loop_absent) auto

lemma RemoveFilter_present:
  "filters x = pre @ f # post \<Longrightarrow> \<forall>g \<in> set pre. fid g \<noteq> i \<Longrightarrow> fid f = i \<Longrightarrow>
   RemoveFilter i x =
     (case close_chan (heap x) (fch f) of
        Inl p \<Rightarrow> (Panics p, x)
      | Inr h \<Rightarrow> (Returns None, x\<lparr>heap := h, filters := pre @ post\<rparr>))"
  unfolding RemoveFilter_def
  using RemoveFilter_loop_present [of x "[]" pre f post 0 i] by (simp split: sum.splits)

lemma first_with_id:
  "i \<in> fid ` set fs \<Longrightarrow>
   \<exists>pre f post. fs = pre @ f # post \<and> fid f = i \<and> (\<forall>g \<in> set pre. fid g \<noteq> i)"
proof -
  assume "i \<in> fid ` set fs"
  then have "\<exists>f \<in> set fs. fid f = i" by auto
  from split_list_first_prop [OF this] show ?thesis by blast
qed


lemma close_chan_Inr: "close_chan h c = Inr h' \<longleftrightarrow> chan_open h c \<and> h' = set_closed h c"
  by (auto simp: close_chan_def)

lemma close_chan_open: "chan_open h c \<Longrightarrow> close_chan h c = Inr (set_closed h c)"
  by (simp add: close_chan_def)

lemma open_not_closed: "chan_open h c \<Longrightarrow> \<not> chan_closed h c"
  by (cases c) (simp_all add: chan_open_def chan_closed_def)

lemma chan_open_append:
  "chan_open (h @ [s]) c \<longleftrightarrow> chan_open h c \<or> (c = Chan (length h) \<and> s = Open)"
  by (cases c) (auto simp: chan_open_def nth_append)

lemma chan_closed_append:
  "chan_closed (h @ [s]) c \<longleftrightarrow> chan_closed h c \<or> (c = Chan (length h) \<and> s = Closed)"
  by (cases c) (auto simp: chan_closed_def nth_append)

lemma chan_open_fresh: "\<not> chan_open h (Chan (length h))" "\<not> chan_closed h (Chan (length h))"
  by (simp_all add: chan_open_def chan_closed_def)

lemma chan_open_set_closed: "chan_open (set_closed h c) d \<longleftrightarrow> chan_open h d \<and> d \<noteq> c"
proof (cases c)
  case NilChan
  then show ?thesis by (cases d) (auto simp: chan_open_def set_closed_def)
next
  case (Chan a)
  show ?thesis
  proof (cases "a < length h")
    case True
    then show ?thesis by (cases d) (auto simp: Chan chan_open_def set_closed_def nth_list_update)
  next
    case False
    then show ?thesis by (cases d) (auto simp: Chan chan_open_def set_closed_def)
  qed
qed

lemma chan_closed_set_closed:
  "chan_open h c \<Longrightarrow> chan_closed (set_closed h c) d \<longleftrightarrow> chan_closed h d \<or> d = c"
  by (cases c; cases d) (auto simp: chan_open_def chan_closed_def set_closed_def nth_list_update)

lemma set_closed_append_fresh: "set_closed (h @ [Open]) (Chan (length h)) = h @ [Closed]"
  by (simp add: set_closed_def)

lemma RemoveFilter_just_added:
  "RemoveFilter (nextFilterID x) (snd (snd (AddFilter m x))) =
     (Returns None, x\<lparr>heap := heap x @ [Closed], nextFilterID := nextFilterID x + 1\<rparr>)"
  by (simp add: AddFilter_eq RemoveFilter_def close_chan_open chan_open_append
      set_closed_append_fresh)

lemma RemoveFilter_success:
  assumes split: "filters x = pre @ f # post" and pre: "\<forall>g \<in> set pre. fid g \<noteq> i"
    and f: "fid f = i" and opn: "chan_open (heap x) (fch f)"
  shows "RemoveFilter i x =
           (Returns None, x\<lparr>heap := set_closed (heap x) (fch f), filters := pre @ post\<rparr>)"
  using RemoveFilter_present [OF split pre f] by (simp add: close_chan_open [OF opn])

text \<open>
  C10. A \<^verbatim>\<open>RemoveFilter\<close> that returns \<^verbatim>\<open>nil\<close> has removed the first filter with the
  identifier: the filters before and after it stay, unchanged and in their order; the
  only heap cell that changes is that of the removed filter's channel, which was open
  and is closed; the counter and the channels \<^verbatim>\<open>In\<close> and \<^verbatim>\<open>Out\<close> are as before.
\<close>

theorem RemoveFilter_frame:
  assumes ok: "RemoveFilter i x = (Returns None, x')"
  shows "\<exists>pre f post. filters x = pre @ f # post \<and> fid f = i \<and> (\<forall>g \<in> set pre. fid g \<noteq> i) \<and>
           filters x' = pre @ post \<and>
           chan_open (heap x) (fch f) \<and>
           heap x' = set_closed (heap x) (fch f) \<and>
           (\<forall>c. c \<noteq> fch f \<longrightarrow> chan_open (heap x') c = chan_open (heap x) c) \<and>
           (\<forall>c. c \<noteq> fch f \<longrightarrow> chan_closed (heap x') c = chan_closed (heap x) c) \<and>
           nextFilterID x' = nextFilterID x \<and> In_ch x' = In_ch x \<and> Out_ch x' = Out_ch x"
proof (cases "i \<in> fid ` set (filters x)")
  case False
  from RemoveFilter_absent [OF this] ok show ?thesis by simp
next
  case True
  from first_with_id [OF this] obtain pre f post where
    split: "filters x = pre @ f # post" and f: "fid f = i" and pre: "\<forall>g \<in> set pre. fid g \<noteq> i"
    by blast
  from RemoveFilter_present [OF split pre f] ok
  have opn: "chan_open (heap x) (fch f)"
    and x': "x' = x\<lparr>heap := set_closed (heap x) (fch f), filters := pre @ post\<rparr>"
    by (auto simp: close_chan_def split: if_splits)
  have "\<forall>c. c \<noteq> fch f \<longrightarrow> chan_open (heap x') c = chan_open (heap x) c"
    by (simp add: x' chan_open_set_closed)
  moreover have "\<forall>c. c \<noteq> fch f \<longrightarrow> chan_closed (heap x') c = chan_closed (heap x) c"
    by (simp add: x' chan_closed_set_closed [OF opn])
  ultimately show ?thesis
    using split f pre x' opn by (intro exI [of _ pre] exI [of _ f] exI [of _ post]) simp
qed

subsection \<open>Identifiers over sequences of calls\<close>

lemma run_append: "run (cs @ ds) x = run ds (run cs x)"
  by (induction cs arbitrary: x) simp_all

lemma adds_append: "adds (cs @ ds) = adds cs + adds ds"
  by (induction cs rule: adds.induct) simp_all

lemma adds_churn: "adds (churn m k n) = n"
  by (induction n) (simp_all add: adds_append)

lemma numbered_new: "numbered 0 newXMPP"
  by (simp add: numbered_def newXMPP_def)

lemma numbered_Add: "numbered n x \<Longrightarrow> numbered (Suc n) (step (Add m) x)"
proof -
  assume "numbered n x"
  then obtain ks where nx: "nextFilterID x = word_of_nat n"
    and ks: "map fid (filters x) = map word_of_nat ks" "sorted_wrt (>) ks" "\<forall>k \<in> set ks. k < n"
    by (auto simp: numbered_def)
  have "map fid (filters (step (Add m) x)) = map word_of_nat (n # ks)"
    using nx ks(1) by (simp add: AddFilter_eq)
  moreover have "sorted_wrt (>) (n # ks)" using ks by auto
  moreover have "\<forall>k \<in> set (n # ks). k < Suc n" using ks(3) by auto
  moreover have "nextFilterID (step (Add m) x) = word_of_nat (Suc n)"
    using nx by (simp add: AddFilter_eq)
  ultimately show ?thesis unfolding numbered_def by blast
qed

lemma RemoveFilter_cases:
  "snd (RemoveFilter i x) = x \<or>
   (\<exists>pre f post. filters x = pre @ f # post \<and>
      snd (RemoveFilter i x) = x\<lparr>heap := set_closed (heap x) (fch f), filters := pre @ post\<rparr>)"
proof (cases "i \<in> fid ` set (filters x)")
  case False
  then show ?thesis by (simp add: RemoveFilter_absent)
next
  case True
  from first_with_id [OF this] obtain pre f post where
    split: "filters x = pre @ f # post" and f: "fid f = i" and pre: "\<forall>g \<in> set pre. fid g \<noteq> i"
    by blast
  show ?thesis
    using RemoveFilter_present [OF split pre f] split
    by (cases "close_chan (heap x) (fch f)") (auto simp: close_chan_Inr)
qed

lemma numbered_Remove: "numbered n x \<Longrightarrow> numbered n (step (Remove i) x)"
proof -
  assume n: "numbered n x"
  from RemoveFilter_cases [of i x] show ?thesis
  proof
    assume "snd (RemoveFilter i x) = x"
    with n show ?thesis by simp
  next
    assume "\<exists>pre f post. filters x = pre @ f # post \<and>
      snd (RemoveFilter i x) = x\<lparr>heap := set_closed (heap x) (fch f), filters := pre @ post\<rparr>"
    then obtain pre f post where split: "filters x = pre @ f # post"
      and x': "snd (RemoveFilter i x) = x\<lparr>heap := set_closed (heap x) (fch f), filters := pre @ post\<rparr>"
      by blast
    from n obtain ks where nx: "nextFilterID x = word_of_nat n"
      and ks: "map fid (filters x) = map word_of_nat ks" "sorted_wrt (>) ks" "\<forall>k \<in> set ks. k < n"
      by (auto simp: numbered_def)
    let ?j = "length pre"
    let ?ks' = "take ?j ks @ drop (Suc ?j) ks"
    have len: "length ks = length pre + Suc (length post)"
      using arg_cong [OF ks(1), of length] split by simp
    have "map fid (pre @ post) = take ?j (map fid (filters x)) @ drop (Suc ?j) (map fid (filters x))"
      by (simp add: split)
    then have "map fid (pre @ post) = map word_of_nat ?ks'"
      by (simp add: ks(1) take_map drop_map)
    moreover have "sorted_wrt (>) ?ks'"
    proof -
      have "ks = take ?j ks @ (ks ! ?j) # drop (Suc ?j) ks"
        using len by (simp add: id_take_nth_drop)
      with ks(2) have "sorted_wrt (>) (take ?j ks @ (ks ! ?j) # drop (Suc ?j) ks)" by simp
      then show ?thesis by (auto simp: sorted_wrt_append)
    qed
    moreover have "\<forall>k \<in> set ?ks'. k < n"
      using ks(3) by (auto dest: in_set_takeD in_set_dropD)
    ultimately have "\<exists>ks'. map fid (pre @ post) = map word_of_nat ks' \<and> sorted_wrt (>) ks' \<and>
        (\<forall>k \<in> set ks'. k < n)"
      by blast
    then show ?thesis
      unfolding numbered_def using nx x' by simp
  qed
qed

lemma numbered_run: "numbered n x \<Longrightarrow> numbered (n + adds cs) (run cs x)"
proof (induction cs arbitrary: n x)
  case Nil
  then show ?case by simp
next
  case (Cons c cs)
  show ?case
  proof (cases c)
    case (Add m)
    from Cons.IH [OF numbered_Add [OF Cons.prems, of m]] show ?thesis by (simp add: Add)
  next
    case (Remove i)
    from Cons.IH [OF numbered_Remove [OF Cons.prems, of i]] show ?thesis by (simp add: Remove)
  qed
qed

lemma issued_numbered:
  "numbered n x \<Longrightarrow> issued cs x = map word_of_nat [n ..< n + adds cs]"
proof (induction cs arbitrary: n x)
  case Nil
  then show ?case by simp
next
  case (Cons c cs)
  show ?case
  proof (cases c)
    case (Add m)
    have "fst (AddFilter m x) = word_of_nat n"
      using Cons.prems by (simp add: AddFilter_eq numbered_def)
    with Cons.IH [OF numbered_Add [OF Cons.prems, of m]] show ?thesis
      by (simp add: Add upt_conv_Cons del: upt_Suc)
  next
    case (Remove i)
    from Cons.IH [OF numbered_Remove [OF Cons.prems, of i]] show ?thesis by (simp add: Remove)
  qed
qed

lemma sint_small:
  assumes "k < 2 ^ 63"
  shows "sint (word_of_nat k :: 64 word) = int k"
proof -
  from assms have "int k < 2 ^ 63" by (simp add: of_nat_less_numeral_power_cancel_iff)
  have "sint (word_of_nat k :: 64 word) = signed_take_bit 63 (int k)"
    using sint_sbintrunc' [where 'a = 64, of "int k"] by simp
  also have "\<dots> = int k"
    by (rule signed_take_bit_int_eq_self) (use \<open>int k < 2 ^ 63\<close> in simp_all)
  finally show ?thesis .
qed

lemma sless_small:
  "j < 2 ^ 63 \<Longrightarrow> k < 2 ^ 63 \<Longrightarrow> (word_of_nat j :: 64 word) <s word_of_nat k \<longleftrightarrow> j < k"
  by (simp add: word_sless_alt sint_small)

lemma sorted_small_ids:
  assumes "\<forall>k \<in> set ks. k < 2 ^ 63" 
  shows "sorted_wrt (<) ks \<Longrightarrow> sorted_wrt (<s) (map word_of_nat ks :: 64 word list)"
    and "sorted_wrt (>) ks \<Longrightarrow> sorted_wrt (\<lambda>a b. b <s a) (map word_of_nat ks :: 64 word list)"
  using assms by (auto simp: sorted_wrt_map sless_small elim!: sorted_wrt_mono_rel [rotated])

lemma sorted_sless_distinct: "sorted_wrt (<s) (ws :: 64 word list) \<Longrightarrow> distinct ws"
  by (induction ws) auto

lemma sorted_sgreater_distinct: "sorted_wrt (\<lambda>a b. b <s a) (ws :: 64 word list) \<Longrightarrow> distinct ws"
  by (induction ws) auto

lemma decreasing_distinct: "sorted_wrt (>) (ks :: nat list) \<Longrightarrow> distinct ks"
  by (induction ks) auto

lemma unat_small: "k < 2 ^ 64 \<Longrightarrow> unat (word_of_nat k :: 64 word) = k"
  by (simp add: unat_of_nat)

lemma distinct_small_ids:
  assumes "\<forall>k \<in> set ks. k < 2 ^ 64" and "distinct ks"
  shows "distinct (map word_of_nat ks :: 64 word list)"
proof -
  have "inj_on (word_of_nat :: nat \<Rightarrow> 64 word) (set ks)"
  proof (rule inj_onI)
    fix j k assume "j \<in> set ks" "k \<in> set ks"
      and eq: "(word_of_nat j :: 64 word) = word_of_nat k"
    with assms(1) have "j < 2 ^ 64" "k < 2 ^ 64" by auto
    with arg_cong [OF eq, of unat] show "j = k" by (simp add: unat_small)
  qed
  with assms(2) show ?thesis by (simp add: distinct_map)
qed

text \<open>Up to \<open>2 ^ 64\<close> calls of \<^verbatim>\<open>AddFilter\<close> no identifier comes twice.\<close>

lemma ids_distinct_run:
  assumes "adds cs \<le> 2 ^ 64"
  shows "distinct (issued cs newXMPP)" and "distinct (map fid (filters (run cs newXMPP)))"
proof -
  have "issued cs newXMPP = map word_of_nat [0 ..< adds cs]"
    using issued_numbered [OF numbered_new, of cs] by simp
  moreover have "\<forall>k \<in> set [0 ..< adds cs]. k < 2 ^ 64" using assms by auto
  ultimately show "distinct (issued cs newXMPP)"
    using distinct_small_ids [of "[0 ..< adds cs]"] by simp
  from numbered_run [OF numbered_new, of cs] obtain ks where
    ks: "map fid (filters (run cs newXMPP)) = map word_of_nat ks" "sorted_wrt (>) ks"
      "\<forall>k \<in> set ks. k < adds cs"
    by (auto simp: numbered_def)
  from ks(3) assms have "\<forall>k \<in> set ks. k < 2 ^ 64" by auto
  from distinct_small_ids [OF this decreasing_distinct [OF ks(2)]]
  show "distinct (map fid (filters (run cs newXMPP)))" by (simp add: ks(1))
qed

text \<open>
  C3, as amended. In every state \<^verbatim>\<open>AddFilter\<close> returns the counter's value and a channel
  that is not nil, was no channel of the heap before and is open after, puts the new
  filter at the head of the slice and increments the counter. Over every sequence of
  \<^verbatim>\<open>AddFilter\<close> and \<^verbatim>\<open>RemoveFilter\<close> calls on a new conversation: with at most \<open>2 ^ 63\<close>
  \<^verbatim>\<open>AddFilter\<close> calls the identifiers returned are strictly increasing (in the signed
  order of \<^verbatim>\<open>int64\<close>) and the registered ones strictly decreasing from the head of the
  slice; with at most \<open>2 ^ 64\<close> \<^verbatim>\<open>AddFilter\<close> calls the identifiers returned are pairwise
  different and no two registered filters have the same identifier.
\<close>

theorem AddFilter_ids:
  "AddFilter m x =
     (nextFilterID x, Chan (length (heap x)),
      x\<lparr>heap := heap x @ [Open], nextFilterID := nextFilterID x + 1,
        filters := \<lparr>fid = nextFilterID x, fm = m, fch = Chan (length (heap x))\<rparr> # filters x\<rparr>)
   \<and> fst (snd (AddFilter m x)) \<noteq> NilChan
   \<and> \<not> chan_open (heap x) (fst (snd (AddFilter m x)))
   \<and> \<not> chan_closed (heap x) (fst (snd (AddFilter m x)))
   \<and> chan_open (heap (snd (snd (AddFilter m x)))) (fst (snd (AddFilter m x)))
   \<and> (adds cs \<le> 2 ^ 63 \<longrightarrow>
        sorted_wrt (<s) (issued cs newXMPP) \<and>
        sorted_wrt (\<lambda>f g. fid g <s fid f) (filters (run cs newXMPP)))
   \<and> (adds cs \<le> 2 ^ 64 \<longrightarrow>
        distinct (issued cs newXMPP) \<and>
        distinct (map fid (filters (run cs newXMPP))))"
proof (intro conjI impI)
  show "AddFilter m x =
     (nextFilterID x, Chan (length (heap x)),
      x\<lparr>heap := heap x @ [Open], nextFilterID := nextFilterID x + 1,
        filters := \<lparr>fid = nextFilterID x, fm = m, fch = Chan (length (heap x))\<rparr> # filters x\<rparr>)"
    by (rule AddFilter_eq)
  show "fst (snd (AddFilter m x)) \<noteq> NilChan"
    by (simp add: AddFilter_eq)
  show "\<not> chan_open (heap x) (fst (snd (AddFilter m x)))"
    by (simp add: AddFilter_eq chan_open_fresh)
  show "\<not> chan_closed (heap x) (fst (snd (AddFilter m x)))"
    by (simp add: AddFilter_eq chan_open_fresh)
  show "chan_open (heap (snd (snd (AddFilter m x)))) (fst (snd (AddFilter m x)))"
    by (simp add: AddFilter_eq chan_open_append)
next
  assume bound: "adds cs \<le> 2 ^ 63"
  have iss: "issued cs newXMPP = map word_of_nat [0 ..< adds cs]"
    using issued_numbered [OF numbered_new, of cs] by simp
  have "\<forall>k \<in> set [0 ..< adds cs]. k < 2 ^ 63" using bound by auto
  from sorted_small_ids(1) [OF this] show "sorted_wrt (<s) (issued cs newXMPP)"
    by (simp add: iss)
  from numbered_run [OF numbered_new, of cs] obtain ks where
    ks: "map fid (filters (run cs newXMPP)) = map word_of_nat ks" "sorted_wrt (>) ks"
      "\<forall>k \<in> set ks. k < adds cs"
    by (auto simp: numbered_def)
  from ks(3) bound have "\<forall>k \<in> set ks. k < 2 ^ 63" by auto
  from sorted_small_ids(2) [OF this ks(2)]
  have "sorted_wrt (\<lambda>a b. b <s a) (map fid (filters (run cs newXMPP)))"
    by (simp add: ks(1))
  then show "sorted_wrt (\<lambda>f g. fid g <s fid f) (filters (run cs newXMPP))"
    by (simp add: sorted_wrt_map)
next
  assume bound: "adds cs \<le> 2 ^ 64"
  from ids_distinct_run [OF this]
  show "distinct (issued cs newXMPP)" "distinct (map fid (filters (run cs newXMPP)))" .
qed

text \<open>Three filters added and the first one removed.\<close>

theorem AddFilter_ids_witness:
  "adds [Add (IQResult ''a''), Add (IQResult ''b''), Remove 0, Add (IQResult ''c'')] \<le> 2 ^ 63
   \<and> issued [Add (IQResult ''a''), Add (IQResult ''b''), Remove 0, Add (IQResult ''c'')] newXMPP
       = [0, 1, 2]
   \<and> map fid (filters (run [Add (IQResult ''a''), Add (IQResult ''b''), Remove 0,
                            Add (IQResult ''c'')] newXMPP)) = [2, 1]
   \<and> sorted_wrt (<s) (issued [Add (IQResult ''a''), Add (IQResult ''b''), Remove 0,
                               Add (IQResult ''c'')] newXMPP)
   \<and> distinct (map fid (filters (run [Add (IQResult ''a''), Add (IQResult ''b''), Remove 0,
                            Add (IQResult ''c'')] newXMPP)))"
proof -
  let ?cs = "[Add (IQResult ''a''), Add (IQResult ''b''), Remove 0, Add (IQResult ''c'')]"
  have a: "adds ?cs \<le> 2 ^ 63" and b: "adds ?cs \<le> 2 ^ 64" by simp_all
  have i: "issued ?cs newXMPP = [0, 1, 2]"
    by (simp add: AddFilter_eq RemoveFilter_def close_chan_def chan_open_def newXMPP_def)
  have r: "map fid (filters (run ?cs newXMPP)) = [2, 1]"
    by (simp add: AddFilter_eq RemoveFilter_def close_chan_def chan_open_def newXMPP_def)
  from AddFilter_ids [of "IQResult ''a''" newXMPP ?cs] a b
  have "sorted_wrt (<s) (issued ?cs newXMPP)"
    and "distinct (map fid (filters (run ?cs newXMPP)))"
    by blast+
  with a i r show ?thesis by blast
qed

text \<open>
  The rounds of \<open>churn\<close> leave the registry as it is: only the counter and the heap
  grow.
\<close>

lemma churn_state:
  "nextFilterID x = word_of_nat k \<Longrightarrow>
   run (churn m k n) x =
     x\<lparr>nextFilterID := word_of_nat (k + n), heap := heap x @ replicate n Closed\<rparr>"
proof (induction n)
  case 0
  then show ?case by simp
next
  case (Suc n)
  let ?y = "x\<lparr>nextFilterID := word_of_nat (k + n), heap := heap x @ replicate n Closed\<rparr>"
  have "run (churn m k (Suc n)) x =
      snd (RemoveFilter (nextFilterID ?y) (snd (snd (AddFilter m ?y))))"
    by (simp add: run_append Suc)
  also have "\<dots> = ?y\<lparr>heap := heap ?y @ [Closed], nextFilterID := nextFilterID ?y + 1\<rparr>"
    by (simp only: RemoveFilter_just_added snd_conv)
  finally show ?case by (simp add: replicate_append_same)
qed

text \<open>
  A filter is added and stays; then come \<open>n\<close> rounds of adding and removing a filter,
  and one more filter is added. The registry then holds the last filter and the first.
\<close>

lemma kept_and_last:
  "filters (run (Add m # churn m 1 n @ [Add m]) newXMPP) =
     [\<lparr>fid = word_of_nat (Suc n), fm = m, fch = Chan (n + 3)\<rparr>,
      \<lparr>fid = 0, fm = m, fch = Chan 2\<rparr>]"
proof -
  let ?x1 = "snd (snd (AddFilter m newXMPP))"
  have "nextFilterID ?x1 = word_of_nat 1" by (simp add: AddFilter_eq newXMPP_def)
  from churn_state [OF this, of m n]
  show ?thesis by (simp add: run_append AddFilter_eq newXMPP_def)
qed

text \<open>
  C3 as stated ("over any sequence of calls") fails when the counter wraps. After
  \<open>2 ^ 63 - 1\<close> rounds of adding and removing a filter, two more \<^verbatim>\<open>AddFilter\<close> calls
  return \<open>2 ^ 63 - 1\<close> and then \<open>- 2 ^ 63\<close>: not increasing. With a first filter that stays
  registered and \<open>2 ^ 64 - 1\<close> such rounds, the next \<^verbatim>\<open>AddFilter\<close> returns 0 again: an
  identifier comes twice, and the registry holds two filters with the identifier 0.
\<close>

theorem ids_wrap_counterexample:
  "\<not> sorted_wrt (<s)
       (issued (churn (IQResult ''1'') 0 (2 ^ 63 - 1) @ [Add (IQResult ''1''), Add (IQResult ''1'')])
          newXMPP)
   \<and> \<not> distinct
       (issued (Add (IQResult ''1'') # churn (IQResult ''1'') 1 (2 ^ 64 - 1) @ [Add (IQResult ''1'')])
          newXMPP)
   \<and> \<not> distinct
       (map fid (filters
          (run (Add (IQResult ''1'') # churn (IQResult ''1'') 1 (2 ^ 64 - 1) @ [Add (IQResult ''1'')])
             newXMPP)))"
proof (intro conjI notI)
  let ?cs = "churn (IQResult ''1'') 0 (2 ^ 63 - 1) @ [Add (IQResult ''1''), Add (IQResult ''1'')]"
  let ?ws = "map word_of_nat [0 ..< 2 ^ 63 + 1] :: 64 word list"
  assume "sorted_wrt (<s) (issued ?cs newXMPP)"
  moreover have "adds ?cs = 2 ^ 63 + 1" by (simp add: adds_append adds_churn)
  then have "issued ?cs newXMPP = ?ws"
    using issued_numbered [OF numbered_new, of ?cs] by simp
  ultimately have "sorted_wrt (<s) ?ws" by simp
  from sorted_wrt_nth_less [OF this, of "2 ^ 63 - 1" "2 ^ 63"]
  have "(word_of_nat (2 ^ 63 - 1) :: 64 word) <s word_of_nat (2 ^ 63)"
    by (simp del: upt_Suc)
  then show False by (simp add: word_sless_alt)
next
  let ?cs = "Add (IQResult ''1'') # churn (IQResult ''1'') 1 (2 ^ 64 - 1) @ [Add (IQResult ''1'')]"
  let ?ws = "map word_of_nat [0 ..< 2 ^ 64 + 1] :: 64 word list"
  assume "distinct (issued ?cs newXMPP)"
  moreover have "adds ?cs = 2 ^ 64 + 1" by (simp add: adds_append adds_churn)
  then have "issued ?cs newXMPP = ?ws"
    using issued_numbered [OF numbered_new, of ?cs] by (simp only: add_0)
  ultimately have "distinct ?ws" by (simp only:)
  from nth_eq_iff_index_eq [OF this, of 0 "2 ^ 64"]
  show False by (simp del: upt_Suc)
next
  assume "distinct (map fid (filters
      (run (Add (IQResult ''1'') # churn (IQResult ''1'') 1 (2 ^ 64 - 1) @ [Add (IQResult ''1'')])
         newXMPP)))"
  then show False by (simp only: kept_and_last) simp
qed

subsection \<open>States that the registry's operations produce\<close>

text \<open>
  The channels stay pairwise different and open, whatever calls of \<^verbatim>\<open>AddFilter\<close> and
  \<^verbatim>\<open>RemoveFilter\<close> are made on a new conversation: the conditions on the channels in the
  statements below hold in all these states.
\<close>

lemma channels_ok_new: "channels_ok newXMPP"
  by (simp add: channels_ok_def newXMPP_def chan_open_def)

lemma chan_open_in_heap: "chan_open h c \<Longrightarrow> c \<noteq> Chan (length h)"
  using chan_open_fresh(1) [of h] by auto

lemma channels_ok_Add: "channels_ok x \<Longrightarrow> channels_ok (step (Add m) x)"
  by (fastforce simp: channels_ok_def AddFilter_eq chan_open_append dest: chan_open_in_heap)

lemma channels_ok_Remove:
  assumes "channels_ok x"
  shows "channels_ok (step (Remove i) x)"
proof -
  from RemoveFilter_cases [of i x] show ?thesis
  proof
    assume "snd (RemoveFilter i x) = x"
    with assms show ?thesis by simp
  next
    assume "\<exists>pre f post. filters x = pre @ f # post \<and>
      snd (RemoveFilter i x) = x\<lparr>heap := set_closed (heap x) (fch f), filters := pre @ post\<rparr>"
    then obtain pre f post where split: "filters x = pre @ f # post"
      and x': "snd (RemoveFilter i x) = x\<lparr>heap := set_closed (heap x) (fch f), filters := pre @ post\<rparr>"
      by blast
    from assms split show ?thesis
      by (auto simp: channels_ok_def x' chan_open_set_closed)
  qed
qed

lemma channels_ok_run: "channels_ok x \<Longrightarrow> channels_ok (run cs x)"
proof (induction cs arbitrary: x)
  case Nil
  then show ?case by simp
next
  case (Cons c cs)
  then show ?case
    by (cases c) (simp_all only: run.simps channels_ok_Add channels_ok_Remove)
qed

lemma channels_ok_reachable:
  "\<forall>f \<in> set (filters (run cs newXMPP)). chan_open (heap (run cs newXMPP)) (fch f)"
  "distinct (map fch (filters (run cs newXMPP)))"
  "chan_open (heap (run cs newXMPP)) (In_ch (run cs newXMPP))"
  "chan_open (heap (run cs newXMPP)) (Out_ch (run cs newXMPP))"
  using channels_ok_run [OF channels_ok_new, of cs]
  by (simp_all add: channels_ok_def)

subsection \<open>The contract of removal\<close>

text \<open>
  C4, as amended. When no filter with the identifier is registered, \<^verbatim>\<open>RemoveFilter\<close>
  returns the identifier as the error and leaves the state as it is. When one is
  registered (the registered channels being open), it closes the channel of the first
  such filter, takes the filter out of the slice and returns \<^verbatim>\<open>nil\<close>; and when no other
  registered filter has the identifier, a second \<^verbatim>\<open>RemoveFilter\<close> with it returns the
  identifier as the error and leaves the state as it is: no channel is closed again.
  In every state that \<^verbatim>\<open>AddFilter\<close> and \<^verbatim>\<open>RemoveFilter\<close> calls produce from a new
  conversation the registered channels are open, and with at most \<open>2 ^ 64\<close> \<^verbatim>\<open>AddFilter\<close>
  calls no two registered filters have the same identifier.
\<close>

theorem RemoveFilter_contract:
  "(i \<notin> fid ` set (filters x) \<longrightarrow>
      RemoveFilter i x = (Returns (Some (InvalidFilterID i)), x))
   \<and> (i \<in> fid ` set (filters x) \<longrightarrow>
      (\<forall>f \<in> set (filters x). chan_open (heap x) (fch f)) \<longrightarrow>
        (\<exists>pre f post. filters x = pre @ f # post \<and> fid f = i \<and> (\<forall>g \<in> set pre. fid g \<noteq> i) \<and>
           RemoveFilter i x =
             (Returns None, x\<lparr>heap := set_closed (heap x) (fch f), filters := pre @ post\<rparr>) \<and>
           chan_closed (heap (snd (RemoveFilter i x))) (fch f) \<and>
           (i \<notin> fid ` set post \<longrightarrow>
              RemoveFilter i (snd (RemoveFilter i x)) =
                (Returns (Some (InvalidFilterID i)), snd (RemoveFilter i x))) \<and>
           (distinct (map fid (filters x)) \<longrightarrow> i \<notin> fid ` set post)))
   \<and> (\<forall>f \<in> set (filters (run cs newXMPP)). chan_open (heap (run cs newXMPP)) (fch f))
   \<and> (adds cs \<le> 2 ^ 64 \<longrightarrow> distinct (map fid (filters (run cs newXMPP))))"
proof (intro conjI impI)
  assume "i \<notin> fid ` set (filters x)"
  then show "RemoveFilter i x = (Returns (Some (InvalidFilterID i)), x)"
    by (rule RemoveFilter_absent)
next
  assume "i \<in> fid ` set (filters x)"
    and opn: "\<forall>f \<in> set (filters x). chan_open (heap x) (fch f)"
  from first_with_id [OF this(1)] obtain pre f post where
    split: "filters x = pre @ f # post" and f: "fid f = i" and pre: "\<forall>g \<in> set pre. fid g \<noteq> i"
    by blast
  let ?x' = "x\<lparr>heap := set_closed (heap x) (fch f), filters := pre @ post\<rparr>"
  from opn split have opn_f: "chan_open (heap x) (fch f)" by simp
  have r1: "RemoveFilter i x = (Returns None, ?x')"
    by (rule RemoveFilter_success [OF split pre f opn_f])
  have closed: "chan_closed (heap ?x') (fch f)"
    by (simp add: chan_closed_set_closed [OF opn_f])
  have r2: "RemoveFilter i ?x' = (Returns (Some (InvalidFilterID i)), ?x')"
    if "i \<notin> fid ` set post"
  proof -
    from that pre have "i \<notin> fid ` set (filters ?x')" by auto
    then show ?thesis by (rule RemoveFilter_absent)
  qed
  have d: "i \<notin> fid ` set post" if "distinct (map fid (filters x))"
    using that split f by auto
  show "\<exists>pre f post. filters x = pre @ f # post \<and> fid f = i \<and> (\<forall>g \<in> set pre. fid g \<noteq> i) \<and>
          RemoveFilter i x =
            (Returns None, x\<lparr>heap := set_closed (heap x) (fch f), filters := pre @ post\<rparr>) \<and>
          chan_closed (heap (snd (RemoveFilter i x))) (fch f) \<and>
          (i \<notin> fid ` set post \<longrightarrow>
             RemoveFilter i (snd (RemoveFilter i x)) =
               (Returns (Some (InvalidFilterID i)), snd (RemoveFilter i x))) \<and>
          (distinct (map fid (filters x)) \<longrightarrow> i \<notin> fid ` set post)"
    using split f pre r1 closed r2 d
    by (intro exI [of _ pre] exI [of _ f] exI [of _ post]) simp
next
  show "\<forall>f \<in> set (filters (run cs newXMPP)). chan_open (heap (run cs newXMPP)) (fch f)"
    by (rule channels_ok_reachable)
next
  assume "adds cs \<le> 2 ^ 64"
  then show "distinct (map fid (filters (run cs newXMPP)))"
    by (rule ids_distinct_run)
qed

text \<open>
  Two registered filters with the same identifier and different open channels: the
  first \<^verbatim>\<open>RemoveFilter\<close> removes the first of them, the second call the other one.
\<close>

lemma RemoveFilter_twice_same_id:
  assumes fs: "filters x = [f, g]" and ids: "fid f = i" "fid g = i"
    and opn: "chan_open (heap x) (fch f)" "chan_open (heap x) (fch g)" and ne: "fch f \<noteq> fch g"
  shows "fst (RemoveFilter i x) = Returns None"
    and "chan_open (heap (snd (RemoveFilter i x))) (fch g)"
    and "fst (RemoveFilter i (snd (RemoveFilter i x))) = Returns None"
    and "chan_closed (heap (snd (RemoveFilter i (snd (RemoveFilter i x))))) (fch g)"
proof -
  let ?x' = "x\<lparr>heap := set_closed (heap x) (fch f), filters := [g]\<rparr>"
  have r1: "RemoveFilter i x = (Returns None, ?x')"
    using RemoveFilter_success [of x "[]" f "[g]" i] fs ids(1) opn(1) by simp
  have og: "chan_open (heap ?x') (fch g)"
    using opn(2) ne by (simp add: chan_open_set_closed)
  have r2: "RemoveFilter i ?x' =
      (Returns None, ?x'\<lparr>heap := set_closed (heap ?x') (fch g), filters := []\<rparr>)"
    using RemoveFilter_success [of ?x' "[]" g "[]" i] ids(2) og by simp
  show "fst (RemoveFilter i x) = Returns None" by (simp add: r1)
  show "chan_open (heap (snd (RemoveFilter i x))) (fch g)" using og by (simp add: r1)
  show "fst (RemoveFilter i (snd (RemoveFilter i x))) = Returns None" by (simp add: r1 r2)
  show "chan_closed (heap (snd (RemoveFilter i (snd (RemoveFilter i x))))) (fch g)"
    using og by (simp add: r1 r2 chan_closed_set_closed)
qed

text \<open>
  C4 as stated ("for every registry state") fails in a state that the calls themselves
  produce once the counter has wrapped past a filter that is still registered: after a
  first \<^verbatim>\<open>AddFilter\<close> (identifier 0), \<open>2 ^ 64 - 1\<close> rounds of adding and removing a filter and
  one more \<^verbatim>\<open>AddFilter\<close> (identifier 0 again), \<^verbatim>\<open>RemoveFilter(0)\<close> returns \<^verbatim>\<open>nil\<close>, and the
  second \<^verbatim>\<open>RemoveFilter(0)\<close> returns \<^verbatim>\<open>nil\<close> again and closes the channel of the first
  filter, which was open until then.
\<close>

theorem double_removal_counterexample:
  "fst (RemoveFilter 0
         (run (Add (IQResult ''1'') # churn (IQResult ''1'') 1 (2 ^ 64 - 1) @ [Add (IQResult ''1'')])
            newXMPP)) = Returns None
   \<and> chan_open
        (heap (snd (RemoveFilter 0
           (run (Add (IQResult ''1'') # churn (IQResult ''1'') 1 (2 ^ 64 - 1) @ [Add (IQResult ''1'')])
              newXMPP))))
        (Chan 2)
   \<and> fst (RemoveFilter 0 (snd (RemoveFilter 0
         (run (Add (IQResult ''1'') # churn (IQResult ''1'') 1 (2 ^ 64 - 1) @ [Add (IQResult ''1'')])
            newXMPP)))) = Returns None
   \<and> chan_closed
        (heap (snd (RemoveFilter 0 (snd (RemoveFilter 0
           (run (Add (IQResult ''1'') # churn (IQResult ''1'') 1 (2 ^ 64 - 1) @ [Add (IQResult ''1'')])
              newXMPP))))))
        (Chan 2)"
proof -
  let ?m = "IQResult ''1''"
  let ?cs = "Add ?m # churn ?m 1 (2 ^ 64 - 1) @ [Add ?m]"
  let ?x = "run ?cs newXMPP"
  let ?f = "\<lparr>fid = word_of_nat (Suc (2 ^ 64 - 1)) :: FilterID, fm = ?m, fch = Chan (2 ^ 64 - 1 + 3)\<rparr>"
  let ?g = "\<lparr>fid = 0 :: FilterID, fm = ?m, fch = Chan 2\<rparr>"
  have fs: "filters ?x = [?f, ?g]" by (rule kept_and_last)
  have idf: "fid ?f = 0" by simp
  have idg: "fid ?g = 0" by simp
  from channels_ok_reachable(1) [of ?cs]
  have opn: "chan_open (heap ?x) (fch ?f)" "chan_open (heap ?x) (fch ?g)"
    by (simp_all only: fs list.set insert_iff ball_simps simp_thms)
  have ne: "fch ?f \<noteq> fch ?g" by simp
  from RemoveFilter_twice_same_id [OF fs idf idg opn ne]
  show ?thesis by (simp only: filter_t.simps simp_thms)
qed

subsection \<open>The receiver's dispatch and the sender\<close>

lemma chan_send_open: "chan_open h c \<Longrightarrow> chan_send h c v = ([ChanSend c v], Returns ())"
  by (simp add: chan_send_def open_not_closed)

lemma filter_loop_open:
  "\<forall>f \<in> set fs. chan_open h (fch f) \<Longrightarrow>
   filter_loop h v fs b =
     (map (\<lambda>f. ChanSend (fch f) v) (filter (\<lambda>f. Match (fm f) v) fs),
      Returns (b \<or> (\<exists>f \<in> set fs. Match (fm f) v)))"
  by (induction fs arbitrary: b) (simp_all add: chan_send_open)

lemma receive_one_open:
  assumes "select_variant start = (v0, logs)" and "Decode s v0 start = (w, err)"
    and "\<forall>f \<in> set (filters x). chan_open (heap x) (fch f)"
    and "chan_open (heap x) (In_ch x)"
  shows "receive_one s x start =
           (logs @ [StreamDecode v0 start] @
            (case err of None \<Rightarrow> [] | Some e \<Rightarrow> [Log ''Error. Failed to decode element. '']) @
            map (\<lambda>f. ChanSend (fch f) w) (filter (\<lambda>f. Match (fm f) w) (filters x)) @
            (if \<exists>f \<in> set (filters x). Match (fm f) w then [] else [ChanSend (In_ch x) w]),
            Returns ())"
  using assms by (simp add: receive_one_def filter_loop_open chan_send_open Let_def)

text \<open>
  C5. With the registered channels and \<^verbatim>\<open>In\<close> open, the receiver sends a decoded value
  to the channels of exactly the filters whose matcher accepts it, in the order of the
  slice, and then to \<^verbatim>\<open>In\<close> if and only if no matcher accepted it; the order of the
  slice is newest first: a filter just added by \<^verbatim>\<open>AddFilter\<close> is served before all
  others.
\<close>

theorem receiver_dispatch:
  assumes flt: "\<forall>f \<in> set (filters x). chan_open (heap x) (fch f)"
    and inb: "chan_open (heap x) (In_ch x)"
  shows "filter_loop (heap x) v (filters x) False =
           (map (\<lambda>f. ChanSend (fch f) v) (filter (\<lambda>f. Match (fm f) v) (filters x)),
            Returns (\<exists>f \<in> set (filters x). Match (fm f) v))
       \<and> receive_one s x start =
           (snd (select_variant start) @
            [StreamDecode (fst (select_variant start)) start] @
            (case snd (Decode s (fst (select_variant start)) start) of
               None \<Rightarrow> [] | Some e \<Rightarrow> [Log ''Error. Failed to decode element. '']) @
            map (\<lambda>f. ChanSend (fch f) (fst (Decode s (fst (select_variant start)) start)))
              (filter (\<lambda>f. Match (fm f) (fst (Decode s (fst (select_variant start)) start)))
                 (filters x)) @
            (if \<exists>f \<in> set (filters x). Match (fm f) (fst (Decode s (fst (select_variant start)) start))
             then [] else [ChanSend (In_ch x) (fst (Decode s (fst (select_variant start)) start))]),
            Returns ())
       \<and> filter_loop (heap (snd (snd (AddFilter m x)))) v (filters (snd (snd (AddFilter m x)))) False =
           ((if Match m v then [ChanSend (fst (snd (AddFilter m x))) v] else []) @
            map (\<lambda>f. ChanSend (fch f) v) (filter (\<lambda>f. Match (fm f) v) (filters x)),
            Returns (Match m v \<or> (\<exists>f \<in> set (filters x). Match (fm f) v)))"
proof (intro conjI)
  show "filter_loop (heap x) v (filters x) False =
           (map (\<lambda>f. ChanSend (fch f) v) (filter (\<lambda>f. Match (fm f) v) (filters x)),
            Returns (\<exists>f \<in> set (filters x). Match (fm f) v))"
    using filter_loop_open [OF flt] by simp
next
  obtain v0 logs where sel: "select_variant start = (v0, logs)" by (cases "select_variant start")
  obtain w err where dec: "Decode s v0 start = (w, err)" by (cases "Decode s v0 start")
  show "receive_one s x start =
           (snd (select_variant start) @
            [StreamDecode (fst (select_variant start)) start] @
            (case snd (Decode s (fst (select_variant start)) start) of
               None \<Rightarrow> [] | Some e \<Rightarrow> [Log ''Error. Failed to decode element. '']) @
            map (\<lambda>f. ChanSend (fch f) (fst (Decode s (fst (select_variant start)) start)))
              (filter (\<lambda>f. Match (fm f) (fst (Decode s (fst (select_variant start)) start)))
                 (filters x)) @
            (if \<exists>f \<in> set (filters x). Match (fm f) (fst (Decode s (fst (select_variant start)) start))
             then [] else [ChanSend (In_ch x) (fst (Decode s (fst (select_variant start)) start))]),
            Returns ())"
    using receive_one_open [OF sel dec flt inb] by (simp add: sel dec)
next
  have "\<forall>f \<in> set (filters (snd (snd (AddFilter m x)))).
          chan_open (heap (snd (snd (AddFilter m x)))) (fch f)"
    using flt by (auto simp: AddFilter_eq chan_open_append)
  from filter_loop_open [OF this]
  show "filter_loop (heap (snd (snd (AddFilter m x)))) v (filters (snd (snd (AddFilter m x)))) False =
           ((if Match m v then [ChanSend (fst (snd (AddFilter m x))) v] else []) @
            map (\<lambda>f. ChanSend (fch f) v) (filter (\<lambda>f. Match (fm f) v) (filters x)),
            Returns (Match m v \<or> (\<exists>f \<in> set (filters x). Match (fm f) v)))"
    by (simp add: AddFilter_eq)
qed

lemma sender_loop_eq:
  "sender_loop vs closed = (map StreamSend vs, if closed then Returns () else Blocks)"
  by (induction vs) simp_all

text \<open>
  C8. The sender passes every value received from \<^verbatim>\<open>Out\<close> to \<^verbatim>\<open>Send\<close>, unchanged and in
  the order received; when \<^verbatim>\<open>Out\<close> is closed the loop ends and the task logs and calls
  \<^verbatim>\<open>Close\<close>, which sends the end element \<^verbatim>\<open>stream:stream\<close>; while \<^verbatim>\<open>Out\<close> stays open the task
  blocks after the last value and sends no end element.
\<close>

theorem sender_forwards:
  "sender vs True =
     (map StreamSend vs @
      [Log ''Close XMPP stream'', Log ''Close XMPP'',
       StreamSendEnd \<lparr>EndName = \<lparr>Space = ''stream'', Local = ''stream''\<rparr>\<rparr>],
      Returns ())
   \<and> sender vs False = (map StreamSend vs, Blocks)"
  by (simp add: sender_def sender_loop_eq Close_def)

subsection \<open>The choice of the struct\<close>

lemma select_variant_cases:
  "fst (select_variant start) \<in> {PtrError [], PtrIQ \<lparr>ID = [], Type = [], Payload = []\<rparr>,
      PtrMessage [], PtrPresence [], Nil_val}"
  by (simp add: select_variant_def)

lemma decoded_not_failure: "\<not> is_failure (fst (Decode s (fst (select_variant start)) start))"
  using select_variant_cases [of start] by (auto simp: Decode_def is_failure_def)

text \<open>
  C6, as amended. The receiver chooses the struct by the local name of the element:
  \<^verbatim>\<open>error\<close>, \<^verbatim>\<open>iq\<close>, \<^verbatim>\<open>message\<close>, \<^verbatim>\<open>presence\<close>; for any other name it logs and the value
  stays \<^verbatim>\<open>nil\<close>. In every case, the unrecognized one too, \<^verbatim>\<open>Decode\<close> is then called with
  the chosen value and the element (it leaves a \<^verbatim>\<open>nil\<close> value \<^verbatim>\<open>nil\<close>).
\<close>

theorem receiver_selects_variant:
  "(Local (Name start) = ''error'' \<longrightarrow> select_variant start = (PtrError [], []))
   \<and> (Local (Name start) = ''iq'' \<longrightarrow>
        select_variant start = (PtrIQ \<lparr>ID = [], Type = [], Payload = []\<rparr>, []))
   \<and> (Local (Name start) = ''message'' \<longrightarrow> select_variant start = (PtrMessage [], []))
   \<and> (Local (Name start) = ''presence'' \<longrightarrow> select_variant start = (PtrPresence [], []))
   \<and> (Local (Name start) \<notin> {''error'', ''iq'', ''message'', ''presence''} \<longrightarrow>
        select_variant start = (Nil_val, [Log ''Error. Unexected element: %T %v'']) \<and>
        fst (Decode s Nil_val start) = Nil_val)
   \<and> (\<exists>rest. fst (receive_one s x start) =
         snd (select_variant start) @ StreamDecode (fst (select_variant start)) start # rest)"
proof -
  obtain v0 logs where sel: "select_variant start = (v0, logs)" by (cases "select_variant start")
  obtain w err where dec: "Decode s v0 start = (w, err)" by (cases "Decode s v0 start")
  have "\<exists>rest. fst (receive_one s x start) = logs @ StreamDecode v0 start # rest"
    by (auto simp: receive_one_def sel dec Let_def split: prod.splits outcome.splits)
  then have "\<exists>rest. fst (receive_one s x start) =
      snd (select_variant start) @ StreamDecode (fst (select_variant start)) start # rest"
    by (simp add: sel)
  moreover have "fst (Decode s Nil_val start) = Nil_val" by (simp add: Decode_def)
  ultimately show ?thesis by (simp add: select_variant_def)
qed

text \<open>
  C6 as stated (for an unrecognized element \<^verbatim>\<open>Decode\<close> is not called) fails: on an
  element \<^verbatim>\<open>foo\<close> the receiver logs, calls \<^verbatim>\<open>Decode\<close> with \<^verbatim>\<open>nil\<close>, logs the error of
  \<^verbatim>\<open>Decode\<close> and sends \<^verbatim>\<open>nil\<close> on \<^verbatim>\<open>In\<close>.
\<close>

theorem unknown_tag_decoded_counterexample:
  "fst (receive_one attr_stream newXMPP (elem ''foo'' [])) =
     [Log ''Error. Unexected element: %T %v'',
      StreamDecode Nil_val (elem ''foo'' []),
      Log ''Error. Failed to decode element. '',
      ChanSend (Chan 0) Nil_val]"
  by (simp add: receive_one_def select_variant_def Decode_def attr_stream_def elem_def
      newXMPP_def chan_send_def chan_open_def chan_closed_def)

text \<open>An \<^verbatim>\<open>iq\<close> element and an unrecognized one.\<close>

theorem receiver_selects_variant_witness:
  "Local (Name (elem ''iq'' [(''id'', ''1'')])) = ''iq''
   \<and> select_variant (elem ''iq'' [(''id'', ''1'')]) = (PtrIQ \<lparr>ID = [], Type = [], Payload = []\<rparr>, [])
   \<and> Local (Name (elem ''foo'' [])) \<notin> {''error'', ''iq'', ''message'', ''presence''}
   \<and> select_variant (elem ''foo'' []) = (Nil_val, [Log ''Error. Unexected element: %T %v''])"
  using receiver_selects_variant [of "elem ''iq'' [(''id'', ''1'')]" attr_stream newXMPP]
    receiver_selects_variant [of "elem ''foo'' []" attr_stream newXMPP]
  by (simp add: elem_def)

subsection \<open>The receiver's loop and its end\<close>

lemma sent_on_append: "sent_on c (es @ es') = sent_on c es @ sent_on c es'"
  by (induction c es rule: sent_on.induct) simp_all

lemma sent_on_in_trace: "v \<in> set (sent_on c es) \<Longrightarrow> ChanSend c v \<in> set es"
  by (induction c es rule: sent_on.induct) (auto split: if_splits)

lemma select_variant_logs: "ChanSend c v \<notin> set (snd (select_variant start))"
  by (simp add: select_variant_def)

lemma sent_on_logs: "sent_on c (snd (select_variant start)) = []"
  by (simp add: select_variant_def)

lemma receive_one_returns:
  assumes "\<forall>f \<in> set (filters x). chan_open (heap x) (fch f)" and "chan_open (heap x) (In_ch x)"
  shows "snd (receive_one s x start) = Returns ()"
proof -
  obtain v0 logs where sel: "select_variant start = (v0, logs)" by (cases "select_variant start")
  obtain w err where dec: "Decode s v0 start = (w, err)" by (cases "Decode s v0 start")
  from receive_one_open [OF sel dec assms] show ?thesis by simp
qed

lemma receive_one_sends:
  assumes "\<forall>f \<in> set (filters x). chan_open (heap x) (fch f)" and "chan_open (heap x) (In_ch x)"
    and "ChanSend c v \<in> set (fst (receive_one s x start))"
  shows "v = fst (Decode s (fst (select_variant start)) start)"
proof -
  obtain v0 logs where sel: "select_variant start = (v0, logs)" by (cases "select_variant start")
  obtain w err where dec: "Decode s v0 start = (w, err)" by (cases "Decode s v0 start")
  from select_variant_logs [of c v start] sel have "ChanSend c v \<notin> set logs" by simp
  with assms(3) show ?thesis
    unfolding receive_one_open [OF sel dec assms(1,2)]
    by (auto simp: sel dec split: option.splits if_splits)
qed

lemma receive_one_no_filters:
  assumes "filters x = []" and "chan_open (heap x) (In_ch x)"
  shows "sent_on (In_ch x) (fst (receive_one s x start)) =
           [fst (Decode s (fst (select_variant start)) start)]"
proof -
  obtain v0 logs where sel: "select_variant start = (v0, logs)" by (cases "select_variant start")
  obtain w err where dec: "Decode s v0 start = (w, err)" by (cases "Decode s v0 start")
  have logs: "sent_on (In_ch x) logs = []"
    using sent_on_logs [of "In_ch x" start] sel by simp
  have flt: "\<forall>f \<in> set (filters x). chan_open (heap x) (fch f)" using assms(1) by simp
  show ?thesis
    unfolding receive_one_open [OF sel dec flt assms(2)]
    by (simp add: sel dec sent_on_append logs assms(1) split: option.splits)
qed

lemma receiver_loop_run:
  assumes "\<forall>f \<in> set (filters x). chan_open (heap x) (fch f)" and "chan_open (heap x) (In_ch x)"
  shows "receiver_loop s x (map Inr starts @ rest) =
           (concat (map (\<lambda>st. fst (receive_one s x st)) starts) @ fst (receiver_loop s x rest),
            snd (receiver_loop s x rest))"
proof (induction starts)
  case Nil
  show ?case by simp
next
  case (Cons st starts)
  obtain es where "receive_one s x st = (es, Returns ())"
    using receive_one_returns [OF assms, of s st] by (cases "receive_one s x st") simp
  with Cons show ?case by (simp add: split_def)
qed

lemma receiver_loop_exit:
  "snd (receiver_loop s x nexts) \<noteq> Blocks \<Longrightarrow> receiver s x nexts =
     (case close_chan (heap x) (In_ch x) of
        Inl p \<Rightarrow> (fst (receiver_loop s x nexts) @ [Log ''Close XMPP receiver''] @ Close,
                 Panics p, x)
      | Inr h \<Rightarrow> (fst (receiver_loop s x nexts) @ [Log ''Close XMPP receiver''] @ Close @
                    [ChanClose (In_ch x)], snd (receiver_loop s x nexts), x\<lparr>heap := h\<rparr>))"
  by (cases "receiver_loop s x nexts"; cases "snd (receiver_loop s x nexts)")
     (auto simp: receiver_def split: sum.splits)

lemma receiver_blocks:
  "snd (receiver_loop s x nexts) = Blocks \<Longrightarrow> receiver s x nexts = (fst (receiver_loop s x nexts), Blocks, x)"
  by (cases "receiver_loop s x nexts") (auto simp: receiver_def)

text \<open>
  C7. With \<^verbatim>\<open>In\<close> open: whenever the receiver ends, by returning or by a panic, its
  trace ends with the log line, the end element sent by \<^verbatim>\<open>Close\<close> and then the closing of
  \<^verbatim>\<open>In\<close>, in this order, and \<^verbatim>\<open>In\<close> is closed after it. When \<^verbatim>\<open>Next\<close> fails after some
  elements (the registered channels being open), the receiver returns; the error is
  the last value sent on \<^verbatim>\<open>In\<close> before the closing, and it is the only failure value
  sent on \<^verbatim>\<open>In\<close>.
\<close>

theorem receiver_exit:
  assumes inb: "chan_open (heap x) (In_ch x)"
  shows "(fst (snd (receiver s x nexts)) \<noteq> Blocks \<longrightarrow>
            (\<exists>pre. fst (receiver s x nexts) =
               pre @ [Log ''Close XMPP receiver'', Log ''Close XMPP'',
                      StreamSendEnd \<lparr>EndName = \<lparr>Space = ''stream'', Local = ''stream''\<rparr>\<rparr>,
                      ChanClose (In_ch x)]) \<and>
            chan_closed (heap (snd (snd (receiver s x nexts)))) (In_ch x))
       \<and> ((\<forall>f \<in> set (filters x). chan_open (heap x) (fch f)) \<longrightarrow>
            receiver s x (map Inr starts @ Inl e # rest) =
              (concat (map (\<lambda>st. fst (receive_one s x st)) starts) @
               [ChanSend (In_ch x) (GoError e),
                Log ''Close XMPP receiver'', Log ''Close XMPP'',
                StreamSendEnd \<lparr>EndName = \<lparr>Space = ''stream'', Local = ''stream''\<rparr>\<rparr>,
                ChanClose (In_ch x)],
               Returns (), x\<lparr>heap := set_closed (heap x) (In_ch x)\<rparr>) \<and>
            filter is_failure (sent_on (In_ch x) (fst (receiver s x (map Inr starts @ Inl e # rest))))
              = [GoError e])"
proof (intro conjI impI)
  have cl: "close_chan (heap x) (In_ch x) = Inr (set_closed (heap x) (In_ch x))"
    using inb by (rule close_chan_open)
  {
    assume nb: "fst (snd (receiver s x nexts)) \<noteq> Blocks"
    have "snd (receiver_loop s x nexts) \<noteq> Blocks"
    proof
      assume "snd (receiver_loop s x nexts) = Blocks"
      from receiver_blocks [OF this] nb show False by simp
    qed
    from receiver_loop_exit [OF this] cl
    have r: "receiver s x nexts =
        (fst (receiver_loop s x nexts) @ [Log ''Close XMPP receiver''] @ Close @ [ChanClose (In_ch x)],
         snd (receiver_loop s x nexts), x\<lparr>heap := set_closed (heap x) (In_ch x)\<rparr>)"
      by simp
    then show "\<exists>pre. fst (receiver s x nexts) =
               pre @ [Log ''Close XMPP receiver'', Log ''Close XMPP'',
                      StreamSendEnd \<lparr>EndName = \<lparr>Space = ''stream'', Local = ''stream''\<rparr>\<rparr>,
                      ChanClose (In_ch x)]"
      by (simp add: Close_def)
    from r inb show "chan_closed (heap (snd (snd (receiver s x nexts)))) (In_ch x)"
      by (simp add: chan_closed_set_closed)
  }
  {
    assume flt: "\<forall>f \<in> set (filters x). chan_open (heap x) (fch f)"
    let ?its = "concat (map (\<lambda>st. fst (receive_one s x st)) starts)"
    have loop: "receiver_loop s x (map Inr starts @ Inl e # rest) =
        (?its @ [ChanSend (In_ch x) (GoError e)], Returns ())"
      using receiver_loop_run [OF flt inb, of s starts "Inl e # rest"]
      by (simp add: chan_send_open [OF inb])
    then have "snd (receiver_loop s x (map Inr starts @ Inl e # rest)) \<noteq> Blocks" by simp
    from receiver_loop_exit [OF this] cl loop
    show r: "receiver s x (map Inr starts @ Inl e # rest) =
              (?its @
               [ChanSend (In_ch x) (GoError e),
                Log ''Close XMPP receiver'', Log ''Close XMPP'',
                StreamSendEnd \<lparr>EndName = \<lparr>Space = ''stream'', Local = ''stream''\<rparr>\<rparr>,
                ChanClose (In_ch x)],
               Returns (), x\<lparr>heap := set_closed (heap x) (In_ch x)\<rparr>)"
      by (simp add: Close_def)
    have "\<forall>v \<in> set (sent_on (In_ch x) ?its). \<not> is_failure v"
    proof
      fix v assume "v \<in> set (sent_on (In_ch x) ?its)"
      from sent_on_in_trace [OF this] obtain st where "st \<in> set starts"
        and "ChanSend (In_ch x) v \<in> set (fst (receive_one s x st))"
        by auto
      from receive_one_sends [OF flt inb this(2)] show "\<not> is_failure v"
        by (simp add: decoded_not_failure)
    qed
    then have "filter is_failure (sent_on (In_ch x) ?its) = []"
      by (simp add: filter_empty_conv)
    then show "filter is_failure
         (sent_on (In_ch x) (fst (receiver s x (map Inr starts @ Inl e # rest)))) = [GoError e]"
      by (simp add: r sent_on_append is_failure_def)
  }
qed

text \<open>
  C9. With no filter registered and \<^verbatim>\<open>In\<close> open, the values sent on \<^verbatim>\<open>In\<close> are the decoded
  elements, one for each element that \<^verbatim>\<open>Next\<close> returned and in the same order; an error
  of \<^verbatim>\<open>Next\<close> follows them as the last value.
\<close>

theorem inbound_order:
  assumes nof: "filters x = []" and inb: "chan_open (heap x) (In_ch x)"
  shows "sent_on (In_ch x) (fst (receiver s x (map Inr starts))) =
           map (\<lambda>st. fst (Decode s (fst (select_variant st)) st)) starts
       \<and> sent_on (In_ch x) (fst (receiver s x (map Inr starts @ Inl e # rest))) =
           map (\<lambda>st. fst (Decode s (fst (select_variant st)) st)) starts @ [GoError e]"
proof -
  have flt: "\<forall>f \<in> set (filters x). chan_open (heap x) (fch f)" using nof by simp
  let ?its = "concat (map (\<lambda>st. fst (receive_one s x st)) starts)"
  have its: "sent_on (In_ch x) ?its = map (\<lambda>st. fst (Decode s (fst (select_variant st)) st)) starts"
    by (induction starts) (simp_all add: sent_on_append receive_one_no_filters [OF nof inb])
  have "receiver_loop s x (map Inr starts) = (?its, Blocks)"
    using receiver_loop_run [OF flt inb, of s starts "[]"] by simp
  then have "receiver s x (map Inr starts) = (?its, Blocks, x)"
    by (simp add: receiver_def)
  moreover have "receiver_loop s x (map Inr starts @ Inl e # rest) =
      (?its @ [ChanSend (In_ch x) (GoError e)], Returns ())"
    using receiver_loop_run [OF flt inb, of s starts "Inl e # rest"]
    by (simp add: chan_send_open [OF inb])
  then have "receiver s x (map Inr starts @ Inl e # rest) =
      (?its @ [ChanSend (In_ch x) (GoError e)] @ [Log ''Close XMPP receiver''] @ Close @
       [ChanClose (In_ch x)], Returns (), x\<lparr>heap := set_closed (heap x) (In_ch x)\<rparr>)"
    using inb by (simp add: receiver_def close_chan_def)
  ultimately show ?thesis
    by (simp add: its sent_on_append Close_def)
qed

subsection \<open>Request and response\<close>

text \<open>
  C2, as amended. \<^verbatim>\<open>SendRecv\<close> registers, at the head of the slice, a filter whose matcher
  accepts exactly the \<^verbatim>\<open>*IQ\<close> values with the identifier of the query (of any kind),
  sends the query on \<^verbatim>\<open>Out\<close> and receives one value from the filter's channel. On every
  way out (the send on a closed \<^verbatim>\<open>Out\<close> panics; the value received is not a \<^verbatim>\<open>*IQ\<close>; the
  value received is a \<^verbatim>\<open>*IQ\<close>) the deferred \<^verbatim>\<open>RemoveFilter\<close> has succeeded: the slice is as
  before the call and the filter's channel is closed. A value that is not a \<^verbatim>\<open>*IQ\<close>
  gives the error \<^verbatim>\<open>Expected IQ\<close>; a \<^verbatim>\<open>*IQ\<close> is returned as it is, whatever its kind. While
  nothing is delivered, and when \<^verbatim>\<open>Out\<close> is nil, the call blocks with the filter still
  registered.
\<close>

theorem SendRecv_contract:
  "(let x1 = snd (snd (AddFilter (IQResult (ID iq)) x));
        ch = fst (snd (AddFilter (IQResult (ID iq)) x));
        xf = x\<lparr>heap := heap x @ [Closed], nextFilterID := nextFilterID x + 1\<rparr>
    in hd (filters x1) = \<lparr>fid = nextFilterID x, fm = IQResult (ID iq), fch = ch\<rparr>
       \<and> (\<forall>w. Match (fm (hd (filters x1))) w \<longleftrightarrow> (\<exists>q. w = PtrIQ q \<and> ID q = ID iq))
       \<and> RemoveFilter (nextFilterID x) x1 = (Returns None, xf)
       \<and> filters xf = filters x \<and> chan_closed (heap xf) ch
       \<and> (chan_closed (heap x) (Out_ch x) \<longrightarrow>
            SendRecv iq d x = (Panics ''send on closed channel'', [], xf))
       \<and> (chan_open (heap x) (Out_ch x) \<longrightarrow>
            SendRecv iq None x = (Blocks, [ChanSend (Out_ch x) (PtrIQ iq)], x1) \<and>
            SendRecv iq (Some (PtrIQ reply)) x =
              (Returns (Inr reply),
               [ChanSend (Out_ch x) (PtrIQ iq), ChanRecv ch (PtrIQ reply)], xf) \<and>
            ((\<forall>r. v \<noteq> PtrIQ r) \<longrightarrow>
               SendRecv iq (Some v) x =
                 (Returns (Inl (ExpectedIQ v)),
                  [ChanSend (Out_ch x) (PtrIQ iq), ChanRecv ch v], xf)))
       \<and> (Out_ch x = NilChan \<longrightarrow> SendRecv iq d x = (Blocks, [], x1)))"
proof -
  let ?m = "IQResult (ID iq)"
  let ?ch = "Chan (length (heap x))"
  let ?x1 = "x\<lparr>heap := heap x @ [Open], nextFilterID := nextFilterID x + 1,
        filters := \<lparr>fid = nextFilterID x, fm = ?m, fch = ?ch\<rparr> # filters x\<rparr>"
  let ?xf = "x\<lparr>heap := heap x @ [Closed], nextFilterID := nextFilterID x + 1\<rparr>"
  have add: "AddFilter ?m x = (nextFilterID x, ?ch, ?x1)" by (rule AddFilter_eq)
  have rm: "RemoveFilter (nextFilterID x) ?x1 = (Returns None, ?xf)"
    using RemoveFilter_just_added [of x ?m] by (simp add: add)
  have cl: "chan_closed (heap ?xf) ?ch" by (simp add: chan_closed_append)
  have mt: "\<forall>w. Match ?m w \<longleftrightarrow> (\<exists>q. w = PtrIQ q \<and> ID q = ID iq)"
    by (simp add: IQResult_iff)
  have out_closed: "chan_closed (heap ?x1) (Out_ch ?x1) = chan_closed (heap x) (Out_ch x)"
    by (simp add: chan_closed_append)
  have p: "chan_closed (heap x) (Out_ch x) \<Longrightarrow>
      SendRecv iq d x = (Panics ''send on closed channel'', [], ?xf)"
    using out_closed rm by (simp add: SendRecv_def add chan_send_def deferred_RemoveFilter_def)
  have snd: "chan_open (heap x) (Out_ch x) \<Longrightarrow>
      chan_send (heap ?x1) (Out_ch ?x1) (PtrIQ iq) = ([ChanSend (Out_ch x) (PtrIQ iq)], Returns ())"
    using chan_send_open [of "heap ?x1" "Out_ch ?x1"] by (simp add: chan_open_append)
  have b: "chan_open (heap x) (Out_ch x) \<Longrightarrow>
      SendRecv iq None x = (Blocks, [ChanSend (Out_ch x) (PtrIQ iq)], ?x1)"
    using snd by (simp add: SendRecv_def add)
  have r: "chan_open (heap x) (Out_ch x) \<Longrightarrow>
      SendRecv iq (Some (PtrIQ reply)) x =
        (Returns (Inr reply), [ChanSend (Out_ch x) (PtrIQ iq), ChanRecv ?ch (PtrIQ reply)], ?xf)"
    using snd rm by (simp add: SendRecv_def add deferred_RemoveFilter_def)
  have e: "chan_open (heap x) (Out_ch x) \<Longrightarrow> \<forall>r. v \<noteq> PtrIQ r \<Longrightarrow>
      SendRecv iq (Some v) x =
        (Returns (Inl (ExpectedIQ v)), [ChanSend (Out_ch x) (PtrIQ iq), ChanRecv ?ch v], ?xf)"
    using snd rm by (cases v) (simp_all add: SendRecv_def add deferred_RemoveFilter_def)
  have n: "Out_ch x = NilChan \<Longrightarrow> SendRecv iq d x = (Blocks, [], ?x1)"
    by (simp add: SendRecv_def add chan_send_def chan_open_def chan_closed_def)
  show ?thesis
    unfolding Let_def add using rm cl mt p b r e n by simp
qed

text \<open>
  C2 as stated (a delivered value that is not a Query of kind result gives a
  type-mismatch failure) fails: the answer of kind error to the query \<^verbatim>\<open>42\<close> is accepted
  by the registered matcher, and \<^verbatim>\<open>SendRecv\<close> returns it as the reply.
\<close>

theorem SendRecv_kind_counterexample:
  "Match (IQResult ''42'') (PtrIQ \<lparr>ID = ''42'', Type = ''error'', Payload = []\<rparr>)
   \<and> \<not> is_result \<lparr>ID = ''42'', Type = ''error'', Payload = []\<rparr>
   \<and> SendRecv \<lparr>ID = ''42'', Type = ''get'', Payload = []\<rparr>
        (Some (PtrIQ \<lparr>ID = ''42'', Type = ''error'', Payload = []\<rparr>)) newXMPP =
       (Returns (Inr \<lparr>ID = ''42'', Type = ''error'', Payload = []\<rparr>),
        [ChanSend (Chan 1) (PtrIQ \<lparr>ID = ''42'', Type = ''get'', Payload = []\<rparr>),
         ChanRecv (Chan 2) (PtrIQ \<lparr>ID = ''42'', Type = ''error'', Payload = []\<rparr>)],
        \<lparr>In_ch = Chan 0, Out_ch = Chan 1, nextFilterID = 1, filters = [],
          heap = [Open, Open, Closed]\<rparr>)"
  by (simp add: IQResult_iff is_result_def SendRecv_def AddFilter_eq chan_send_def
      deferred_RemoveFilter_def RemoveFilter_def close_chan_def set_closed_def chan_open_def
      chan_closed_def newXMPP_def)

subsection \<open>Examples\<close>

lemma two_filters_eq:
  "two_filters =
     \<lparr>In_ch = Chan 0, Out_ch = Chan 1, nextFilterID = 2,
      filters = [\<lparr>fid = 1, fm = IQResult ''1'', fch = Chan 3\<rparr>,
                 \<lparr>fid = 0, fm = IQResult ''1'', fch = Chan 2\<rparr>],
      heap = [Open, Open, Open, Open]\<rparr>"
  by (simp add: two_filters_def AddFilter_eq newXMPP_def)

text \<open>The query \<^verbatim>\<open>42\<close> on a new conversation, answered by its result and by a message.\<close>

theorem SendRecv_contract_witness:
  "chan_open (heap newXMPP) (Out_ch newXMPP)
   \<and> SendRecv \<lparr>ID = ''42'', Type = ''get'', Payload = []\<rparr>
        (Some (PtrIQ \<lparr>ID = ''42'', Type = ''result'', Payload = []\<rparr>)) newXMPP =
       (Returns (Inr \<lparr>ID = ''42'', Type = ''result'', Payload = []\<rparr>),
        [ChanSend (Chan 1) (PtrIQ \<lparr>ID = ''42'', Type = ''get'', Payload = []\<rparr>),
         ChanRecv (Chan 2) (PtrIQ \<lparr>ID = ''42'', Type = ''result'', Payload = []\<rparr>)],
        \<lparr>In_ch = Chan 0, Out_ch = Chan 1, nextFilterID = 1, filters = [],
          heap = [Open, Open, Closed]\<rparr>)
   \<and> SendRecv \<lparr>ID = ''42'', Type = ''get'', Payload = []\<rparr> (Some (PtrMessage ''hi'')) newXMPP =
       (Returns (Inl (ExpectedIQ (PtrMessage ''hi''))),
        [ChanSend (Chan 1) (PtrIQ \<lparr>ID = ''42'', Type = ''get'', Payload = []\<rparr>),
         ChanRecv (Chan 2) (PtrMessage ''hi'')],
        \<lparr>In_ch = Chan 0, Out_ch = Chan 1, nextFilterID = 1, filters = [],
          heap = [Open, Open, Closed]\<rparr>)"
  using SendRecv_contract [where x = newXMPP
      and iq = "\<lparr>ID = ''42'', Type = ''get'', Payload = []\<rparr>"
      and reply = "\<lparr>ID = ''42'', Type = ''result'', Payload = []\<rparr>" and v = "PtrMessage ''hi''"]
  by (simp add: newXMPP_def chan_open_def chan_closed_def AddFilter_eq Let_def)

text \<open>Removing the older of two filters twice, and removing an identifier never issued.\<close>

theorem RemoveFilter_contract_witness:
  "distinct (map fid (filters two_filters))
   \<and> list_all (\<lambda>f. chan_open (heap two_filters) (fch f)) (filters two_filters)
   \<and> fst (RemoveFilter 0 two_filters) = Returns None
   \<and> map fid (filters (snd (RemoveFilter 0 two_filters))) = [1]
   \<and> heap (snd (RemoveFilter 0 two_filters)) = [Open, Open, Closed, Open]
   \<and> fst (RemoveFilter 0 (snd (RemoveFilter 0 two_filters))) = Returns (Some (InvalidFilterID 0))
   \<and> heap (snd (RemoveFilter 0 (snd (RemoveFilter 0 two_filters)))) = [Open, Open, Closed, Open]
   \<and> RemoveFilter 7 two_filters = (Returns (Some (InvalidFilterID 7)), two_filters)"
  using RemoveFilter_contract [of 0 two_filters "[]"] RemoveFilter_contract [of 7 two_filters "[]"]
  by (simp add: two_filters_eq RemoveFilter_def close_chan_def chan_open_def set_closed_def)

text \<open>Removing the older of two filters leaves the newer one and the counter.\<close>

theorem RemoveFilter_frame_witness:
  "RemoveFilter 0 two_filters = (Returns None, snd (RemoveFilter 0 two_filters))
   \<and> filters (snd (RemoveFilter 0 two_filters)) = [\<lparr>fid = 1, fm = IQResult ''1'', fch = Chan 3\<rparr>]
   \<and> heap (snd (RemoveFilter 0 two_filters)) = [Open, Open, Closed, Open]
   \<and> nextFilterID (snd (RemoveFilter 0 two_filters)) = 2"
  using RemoveFilter_frame [of 0 two_filters "snd (RemoveFilter 0 two_filters)"]
  by (simp add: two_filters_eq RemoveFilter_def close_chan_def chan_open_def set_closed_def)

text \<open>
  Two filters for the identifier \<^verbatim>\<open>"1"\<close>: a result with that identifier goes to both, the
  newer one (channel 3) first, and not to \<^verbatim>\<open>In\<close>; a result with the identifier
  \<^verbatim>\<open>"2"\<close> goes to \<^verbatim>\<open>In\<close> (channel 0) alone.
\<close>

theorem receiver_dispatch_witness:
  "list_all (\<lambda>f. chan_open (heap two_filters) (fch f)) (filters two_filters)
   \<and> chan_open (heap two_filters) (In_ch two_filters)
   \<and> receive_one attr_stream two_filters (elem ''iq'' [(''id'', ''1''), (''type'', ''result'')]) =
       ([StreamDecode (PtrIQ \<lparr>ID = [], Type = [], Payload = []\<rparr>)
           (elem ''iq'' [(''id'', ''1''), (''type'', ''result'')]),
         ChanSend (Chan 3) (PtrIQ \<lparr>ID = ''1'', Type = ''result'', Payload = []\<rparr>),
         ChanSend (Chan 2) (PtrIQ \<lparr>ID = ''1'', Type = ''result'', Payload = []\<rparr>)],
        Returns ())
   \<and> receive_one attr_stream two_filters (elem ''iq'' [(''id'', ''2''), (''type'', ''result'')]) =
       ([StreamDecode (PtrIQ \<lparr>ID = [], Type = [], Payload = []\<rparr>)
           (elem ''iq'' [(''id'', ''2''), (''type'', ''result'')]),
         ChanSend (Chan 0) (PtrIQ \<lparr>ID = ''2'', Type = ''result'', Payload = []\<rparr>)],
        Returns ())"
  using receiver_dispatch [of two_filters Nil_val attr_stream
      "elem ''iq'' [(''id'', ''1''), (''type'', ''result'')]" "IQResult ''1''"]
    receiver_dispatch [of two_filters Nil_val attr_stream
      "elem ''iq'' [(''id'', ''2''), (''type'', ''result'')]" "IQResult ''1''"]
  by (simp add: two_filters_eq chan_open_def select_variant_def Decode_def attr_stream_def
      elem_def IQResult_def MatcherFunc_def Match_def)

text \<open>
  A message followed by a failure of \<^verbatim>\<open>Next\<close>; and a panic on the closed channel of a
  registered filter: the deferred function runs in both.
\<close>

theorem receiver_exit_witness:
  "chan_open (heap newXMPP) (In_ch newXMPP)
   \<and> receiver attr_stream newXMPP [Inr (elem ''message'' []), Inl ''EOF'', Inr (elem ''presence'' [])] =
       ([StreamDecode (PtrMessage []) (elem ''message'' []),
         ChanSend (Chan 0) (PtrMessage []),
         ChanSend (Chan 0) (GoError ''EOF''),
         Log ''Close XMPP receiver'', Log ''Close XMPP'',
         StreamSendEnd \<lparr>EndName = \<lparr>Space = ''stream'', Local = ''stream''\<rparr>\<rparr>,
         ChanClose (Chan 0)],
        Returns (), newXMPP\<lparr>heap := [Closed, Open]\<rparr>)
   \<and> chan_open (heap stale_filter) (In_ch stale_filter)
   \<and> receiver attr_stream stale_filter [Inr (elem ''iq'' [(''id'', ''1'')])] =
       ([StreamDecode (PtrIQ \<lparr>ID = [], Type = [], Payload = []\<rparr>) (elem ''iq'' [(''id'', ''1'')]),
         Log ''Close XMPP receiver'', Log ''Close XMPP'',
         StreamSendEnd \<lparr>EndName = \<lparr>Space = ''stream'', Local = ''stream''\<rparr>\<rparr>,
         ChanClose (Chan 0)],
        Panics ''send on closed channel'', stale_filter\<lparr>heap := [Closed, Open, Closed]\<rparr>)"
  using receiver_exit [of newXMPP attr_stream
      "[Inr (elem ''message'' []), Inl ''EOF'', Inr (elem ''presence'' [])]"
      "[elem ''message'' []]" "''EOF''" "[Inr (elem ''presence'' [])]"]
    receiver_exit [of stale_filter attr_stream "[Inr (elem ''iq'' [(''id'', ''1'')])]"
      "[]" "''EOF''" "[]"]
  by (simp add: newXMPP_def stale_filter_def receiver_def receive_one_def select_variant_def
      Decode_def attr_stream_def elem_def chan_send_def chan_open_def chan_closed_def
      close_chan_def set_closed_def Close_def IQResult_def MatcherFunc_def Match_def)

text \<open>The elements \<^verbatim>\<open>message\<close>, \<^verbatim>\<open>iq\<close> (id 1, result) and \<^verbatim>\<open>presence\<close>, with no filter.\<close>

theorem inbound_order_witness:
  "filters newXMPP = [] \<and> chan_open (heap newXMPP) (In_ch newXMPP)
   \<and> sent_on (In_ch newXMPP)
        (fst (receiver attr_stream newXMPP
           [Inr (elem ''message'' []), Inr (elem ''iq'' [(''id'', ''1''), (''type'', ''result'')]),
            Inr (elem ''presence'' [])])) =
       [PtrMessage [], PtrIQ \<lparr>ID = ''1'', Type = ''result'', Payload = []\<rparr>, PtrPresence []]"
  using inbound_order [of newXMPP attr_stream
      "[elem ''message'' [], elem ''iq'' [(''id'', ''1''), (''type'', ''result'')],
        elem ''presence'' []]" "''EOF''" "[]"]
  by (simp add: newXMPP_def chan_open_def select_variant_def Decode_def attr_stream_def elem_def)

end
